(* ===== verification/Prelude.thy ===== *)
theory Prelude
  imports Main "HOL-Library.Word" "HOL-Library.Monad_Syntax"
begin

unbundle bit_operations_syntax

text \<open>
  Shared vocabulary of the development: the machine integer types of the C code, the
  byte view of a machine word (little endian, as on the x86 targets the code is written
  for), and the generic facts on lists, options, words and modular indices that the
  component theories use.  Results of type \<open>'a option\<close> are computations of the C abstract
  machine: \<open>None\<close> stands for undefined behaviour (an access outside an allocated object, a
  division by zero, a signed overflow, a copy between overlapping regions).
\<close>

type_synonym u8 = "8 word"
type_synonym u32 = "32 word"
type_synonym u64 = "64 word"

text \<open>Addresses are natural numbers; address 0 is the null pointer.\<close>

type_synonym ptr = nat

abbreviation (input) NULL :: ptr where
  "NULL \<equiv> 0"

named_theorems mem_simps \<open>effects of the memory primitives\<close>
named_theorems ring_simps \<open>the circular view of a region\<close>

section \<open>Options as computations\<close>

lemma bind_eq_SomeI: "x = Some a \<Longrightarrow> f a = Some b \<Longrightarrow> Option.bind x f = Some b"
  by simp

lemma if_Some_cong: "(if c then Some a else Some b) = Some (if c then a else b)"
  by simp

section \<open>Lists\<close>

lemma map_upt_shift: "map f [p..<p + n] = map (\<lambda>i. f (p + i)) [0..<n]"
  by (rule nth_equalityI) auto

lemma map_upt_add:
  "map f [0..<a + b] = map f [0..<a] @ map (\<lambda>i. f (a + i)) [0..<b]"
  by (rule nth_equalityI) (auto simp: nth_append)

lemma take_map2: "take n (map2 f xs ys) = map2 f (take n xs) (take n ys)"
  by (simp add: take_map take_zip)

lemma drop_map2: "drop n (map2 f xs ys) = map2 f (drop n xs) (drop n ys)"
  by (simp add: drop_map drop_zip)

lemma map2_append:
  "length xs = length us \<Longrightarrow> map2 f (xs @ ys) (us @ vs) = map2 f xs us @ map2 f ys vs"
  by simp

lemma map2_nth_upt:
  "map2 f (map g [0..<n]) (map h [0..<n]) = map (\<lambda>i. f (g i) (h i)) [0..<n]"
  by (rule nth_equalityI) auto

section \<open>Indices modulo the size of a ring\<close>

lemma mod_add_inj:
  assumes "(r + j) mod t = (r + k) mod (t::nat)" and "j < t" and "k < t"
  shows "j = k"
proof -
  have "int t dvd (int r + int j) - (int r + int k)"
    using assms(1) by (metis mod_eq_dvd_iff of_nat_add of_nat_mod)
  then have "int t dvd int j - int k" by simp
  moreover have "\<bar>int j - int k\<bar> < int t" using assms(2,3) by linarith
  ultimately show ?thesis by (metis dvd_imp_le_int eq_iff_diff_eq_0 abs_of_nat linorder_not_less of_nat_eq_iff)
qed

lemma mod_offset:
  assumes "i < t" and "j < (t::nat)"
  shows "((i + j) mod t + t - i) mod t = j"
proof (cases "i + j < t")
  case True
  then show ?thesis using assms by simp
next
  case False
  then have "(i + j) mod t = i + j - t" using assms by (simp add: mod_if)
  then show ?thesis using assms False by simp
qed

lemma mod_offset_inv:
  assumes "i < t" and "x < (t::nat)"
  shows "(i + (x + t - i) mod t) mod t = x"
  using assms by (cases "i \<le> x") (auto simp: mod_if)

lemma mod_sum_cases:
  assumes "i < t" and "n \<le> (t::nat)"
  shows "(i + n) mod t = (if i + n < t then i + n else i + n - t)"
  using assms by (auto simp: mod_if)

lemma mod_advance:
  assumes "n \<le> a"
  shows "((r + n) mod t + a - n) mod t = (r + a) mod (t::nat)"
    and "((r + n) mod t + a + x - n) mod t = (r + a + x) mod (t::nat)"
proof -
  have "((r + n) mod t + ((a - n) + x)) mod t = (r + n + ((a - n) + x)) mod t" for x
    by (rule mod_add_left_eq)
  from this [of 0] this [of x] show "((r + n) mod t + a - n) mod t = (r + a) mod t"
    and "((r + n) mod t + a + x - n) mod t = (r + a + x) mod t"
    using assms by (simp_all add: add.assoc)
qed

section \<open>Words as little-endian byte strings\<close>

definition word_of_bytes :: "u8 list \<Rightarrow> 'a::len word" where
  "word_of_bytes bs = foldr (\<lambda>b w. ucast b OR push_bit 8 w) bs 0"

definition bytes_of_word :: "'a::len word \<Rightarrow> u8 list" where
  "bytes_of_word w = map (\<lambda>i. ucast (drop_bit (8 * i) w)) [0..<LENGTH('a) div 8]"

lemma length_bytes_of_word [simp]: "length (bytes_of_word (w :: 'a::len word)) = LENGTH('a) div 8"
  by (simp add: bytes_of_word_def)

lemma bit_word_of_bytes:
  "bit (word_of_bytes bs :: 'a::len word) i \<longleftrightarrow>
     i < LENGTH('a) \<and> i < 8 * length bs \<and> bit (bs ! (i div 8)) (i mod 8)"
proof (induction bs arbitrary: i)
  case Nil
  then show ?case by (simp add: word_of_bytes_def)
next
  case (Cons b bs)
  have unfold: "word_of_bytes (b # bs) = (ucast b OR push_bit 8 (word_of_bytes bs) :: 'a word)"
    by (simp add: word_of_bytes_def)
  show ?case
  proof (cases "i < 8")
    case True
    then show ?thesis by (auto simp: unfold bit_or_iff bit_push_bit_iff bit_simps)
  next
    case False
    then obtain k where k: "i = 8 + k" by (metis le_add_diff_inverse not_less)
    have "\<not> bit b (8 + k)" using bit_imp_le_length [of b "8 + k"] by auto
    moreover have "(8 + k) div 8 = Suc (k div 8)" by simp
    ultimately show ?thesis
      by (auto simp: unfold k bit_or_iff bit_push_bit_iff Cons.IH bit_simps)
  qed
qed

lemma bit_nth_bytes_of_word:
  assumes "i < LENGTH('a) div 8"
  shows "bit (bytes_of_word (w :: 'a::len word) ! i) j \<longleftrightarrow> j < 8 \<and> bit w (8 * i + j)"
  using assms by (auto simp: bytes_of_word_def bit_simps)

lemma bytes_of_word_of_bytes:
  assumes "8 * length bs = LENGTH('a)"
  shows "bytes_of_word (word_of_bytes bs :: 'a::len word) = bs"
proof (rule nth_equalityI)
  have len: "LENGTH('a) div 8 = length bs" using assms [symmetric] by simp
  then show "length (bytes_of_word (word_of_bytes bs :: 'a word)) = length bs" by simp
  fix i assume "i < length (bytes_of_word (word_of_bytes bs :: 'a word))"
  then have i: "i < length bs" by (simp add: len)
  show "bytes_of_word (word_of_bytes bs :: 'a word) ! i = bs ! i"
  proof (rule bit_word_eqI)
    fix j assume "j < LENGTH(8)"
    then show "bit (bytes_of_word (word_of_bytes bs :: 'a word) ! i) j = bit (bs ! i) j"
      using i assms by (auto simp: bit_nth_bytes_of_word len bit_word_of_bytes)
  qed
qed

lemma bytes_of_word_xor:
  "bytes_of_word (v XOR w) = map2 (XOR) (bytes_of_word v) (bytes_of_word w)"
proof (rule nth_equalityI)
  fix i assume "i < length (bytes_of_word (v XOR w))"
  then show "bytes_of_word (v XOR w) ! i = map2 (XOR) (bytes_of_word v) (bytes_of_word w) ! i"
    by (auto intro!: bit_word_eqI simp: bit_nth_bytes_of_word bit_xor_iff)
qed simp

section \<open>Unsigned arithmetic without wrap-around\<close>

lemma unat_add_no_wrap:
  "unat a + unat b < 2 ^ LENGTH('a) \<Longrightarrow> unat (a + b :: 'a::len word) = unat a + unat b"
  by (simp add: unat_word_ariths)

lemma unat_sub_no_wrap:
  "unat b \<le> unat a \<Longrightarrow> unat (a - b :: 'a::len word) = unat a - unat b"
  by (simp add: unat_sub word_le_nat_alt)

lemma unat_diff_less: "b \<le> a \<Longrightarrow> 0 < unat b \<Longrightarrow> unat (a - b :: 'a::len word) < unat a"
  by (simp add: unat_sub_no_wrap word_le_nat_alt)

lemma unat_of_int_small:
  assumes "0 \<le> x" and "x < 2 ^ LENGTH('a)"
  shows "unat (of_int x :: 'a::len word) = nat x"
proof -
  have "uint (of_int x :: 'a word) = x"
    using assms by (simp add: uint_word_of_int_eq take_bit_int_eq_self)
  then show ?thesis by (simp add: unat_eq_nat_uint)
qed

lemma unat_min: "unat (min a b :: 'a::len word) = min (unat a) (unat b)"
  by (simp add: min_def word_le_nat_alt)

lemma word_less_zero_iff: "(a :: 'a::len word) = 0 \<longleftrightarrow> unat a = 0"
  by (simp add: unat_eq_0)

section \<open>C arithmetic with undefined cases\<close>

text \<open>Unsigned remainder: undefined for a zero divisor.\<close>

definition c_mod :: "'a::len word \<Rightarrow> 'a word \<Rightarrow> 'a word option" where
  "c_mod a b = (if b = 0 then None else Some (a mod b))"

text \<open>Multiplication at type \<open>int\<close> (32 bits): undefined on signed overflow.\<close>

definition c_int_mul :: "int \<Rightarrow> int \<Rightarrow> int option" where
  "c_int_mul a b = (if - (2 ^ 31) \<le> a * b \<and> a * b < 2 ^ 31 then Some (a * b) else None)"

lemma c_mod_Some: "b \<noteq> 0 \<Longrightarrow> c_mod a b = Some (a mod b)"
  by (simp add: c_mod_def)

end
