(* ===== verification/Memory.thy ===== *)
theory Memory
  imports Prelude
begin

text \<open>
  The byte memory the C code works on: the contents of every address and the objects that
  are currently allocated.  An access is defined only when it stays inside one allocated
  object; every other access is undefined behaviour and yields \<open>None\<close>.  The theory models
  what the code uses of the C library: typed loads and stores, \<open>memcpy\<close>, \<open>malloc\<close> (with
  the choice of the address left to a parameter) and \<open>free\<close>.
\<close>

section \<open>Objects and valid ranges\<close>

record memory =
  byte_at :: "nat \<Rightarrow> u8"
  blocks :: "(ptr \<times> nat) list"

definition valid_range :: "memory \<Rightarrow> ptr \<Rightarrow> nat \<Rightarrow> bool" where
  "valid_range m p n \<longleftrightarrow> list_ex (\<lambda>(b, l). b \<le> p \<and> p + n \<le> b + l) (blocks m)"

definition disjoint_ranges :: "ptr \<Rightarrow> nat \<Rightarrow> ptr \<Rightarrow> nat \<Rightarrow> bool" where
  "disjoint_ranges p n q k \<longleftrightarrow> n = 0 \<or> k = 0 \<or> p + n \<le> q \<or> q + k \<le> p"

text \<open>Allocated objects lie in a 64-bit address space, above address 0, and do not overlap.\<close>

definition wf_memory :: "memory \<Rightarrow> bool" where
  "wf_memory m \<longleftrightarrow>
     list_all (\<lambda>(b, l). 0 < b \<and> b + l \<le> 2 ^ 64) (blocks m) \<and>
     sorted_wrt (\<lambda>(b, l) (c, k). disjoint_ranges b l c k \<and> c \<noteq> b) (blocks m)"

lemma valid_range_sub:
  "valid_range m p n \<Longrightarrow> p \<le> q \<Longrightarrow> q + k \<le> p + n \<Longrightarrow> valid_range m q k"
  unfolding valid_range_def list_ex_iff by (erule bexE, rule bexI) auto

lemma valid_range_prefix: "valid_range m p n \<Longrightarrow> k \<le> n \<Longrightarrow> valid_range m p k"
  by (erule valid_range_sub) simp_all

lemma disjoint_ranges_sym: "disjoint_ranges p n q k \<longleftrightarrow> disjoint_ranges q k p n"
  by (auto simp: disjoint_ranges_def)

lemma disjoint_ranges_sub:
  "disjoint_ranges p n q k \<Longrightarrow> p \<le> p' \<Longrightarrow> p' + n' \<le> p + n \<Longrightarrow> q \<le> q' \<Longrightarrow> q' + k' \<le> q + k
   \<Longrightarrow> disjoint_ranges p' n' q' k'"
  by (auto simp: disjoint_ranges_def)

lemma disjoint_rangesD:
  "disjoint_ranges p n q k \<Longrightarrow> p \<le> a \<Longrightarrow> a < p + n \<Longrightarrow> q \<le> a \<Longrightarrow> a < q + k \<Longrightarrow> False"
  by (auto simp: disjoint_ranges_def)

lemma valid_range_address_space:
  assumes "wf_memory m" and "valid_range m p n"
  shows "0 < p" and "p + n \<le> 2 ^ 64"
  using assms by (fastforce simp: wf_memory_def valid_range_def list_ex_iff list_all_iff)+

section \<open>Reading and writing bytes\<close>

definition read_bytes :: "memory \<Rightarrow> ptr \<Rightarrow> nat \<Rightarrow> u8 list" where
  "read_bytes m p n = map (\<lambda>i. byte_at m (p + i)) [0..<n]"

definition write_bytes :: "memory \<Rightarrow> ptr \<Rightarrow> u8 list \<Rightarrow> memory" where
  "write_bytes m p bs =
     m\<lparr>byte_at := (\<lambda>a. if p \<le> a \<and> a < p + length bs then bs ! (a - p) else byte_at m a)\<rparr>"

definition load_bytes :: "memory \<Rightarrow> ptr \<Rightarrow> nat \<Rightarrow> u8 list option" where
  "load_bytes m p n = (if valid_range m p n then Some (read_bytes m p n) else None)"

definition store_bytes :: "memory \<Rightarrow> ptr \<Rightarrow> u8 list \<Rightarrow> memory option" where
  "store_bytes m p bs = (if valid_range m p (length bs) then Some (write_bytes m p bs) else None)"

definition load_word :: "memory \<Rightarrow> ptr \<Rightarrow> 'a::len word option" where
  "load_word m p = map_option word_of_bytes (load_bytes m p (LENGTH('a) div 8))"

definition store_word :: "memory \<Rightarrow> ptr \<Rightarrow> 'a::len word \<Rightarrow> memory option" where
  "store_word m p w = store_bytes m p (bytes_of_word w)"

text \<open>\<open>memcpy\<close> is undefined for overlapping regions.\<close>

definition memcpy :: "memory \<Rightarrow> ptr \<Rightarrow> ptr \<Rightarrow> nat \<Rightarrow> memory option" where
  "memcpy m dst src n =
     (if disjoint_ranges dst n src n
      then do { bs \<leftarrow> load_bytes m src n; store_bytes m dst bs }
      else None)"

text \<open>
  \<open>malloc\<close> asks the allocator, a parameter that stands for the C library's choice: the
  address of the new object, or the null pointer.  The new object's contents are whatever
  the memory held there.  \<open>free\<close> is undefined unless its argument is the address of an
  allocated object.
\<close>

type_synonym allocator = "memory \<Rightarrow> nat \<Rightarrow> ptr"

definition malloc :: "allocator \<Rightarrow> memory \<Rightarrow> nat \<Rightarrow> ptr \<times> memory" where
  "malloc al m n =
     (let p = al m n in if p = NULL then (NULL, m) else (p, m\<lparr>blocks := (p, n) # blocks m\<rparr>))"

definition free :: "memory \<Rightarrow> ptr \<Rightarrow> memory option" where
  "free m p =
     (if list_ex (\<lambda>(b, l). b = p) (blocks m)
      then Some (m\<lparr>blocks := filter (\<lambda>(b, l). b \<noteq> p) (blocks m)\<rparr>)
      else None)"

definition fresh_range :: "memory \<Rightarrow> ptr \<Rightarrow> nat \<Rightarrow> bool" where
  "fresh_range m p n \<longleftrightarrow> 0 < p \<and> p + n \<le> 2 ^ 64 \<and>
     list_all (\<lambda>(b, l). disjoint_ranges p n b l \<and> b \<noteq> p) (blocks m)"

definition allocator_ok :: "allocator \<Rightarrow> bool" where
  "allocator_ok al \<longleftrightarrow> (\<forall>m n. al m n = NULL \<or> fresh_range m (al m n) n)"

section \<open>Laws of the primitives\<close>

lemma length_read_bytes [simp]: "length (read_bytes m p n) = n"
  by (simp add: read_bytes_def)

lemma nth_read_bytes [simp]: "i < n \<Longrightarrow> read_bytes m p n ! i = byte_at m (p + i)"
  by (simp add: read_bytes_def)

lemma read_bytes_0 [simp]: "read_bytes m p 0 = []"
  by (simp add: read_bytes_def)

lemma read_bytes_add: "read_bytes m p (a + b) = read_bytes m p a @ read_bytes m (p + a) b"
  by (simp add: read_bytes_def map_upt_add [of _ a b] add.assoc)

lemma take_read_bytes: "k \<le> n \<Longrightarrow> take k (read_bytes m p n) = read_bytes m p k"
  by (rule nth_equalityI) auto

lemma drop_read_bytes: "drop k (read_bytes m p n) = read_bytes m (p + k) (n - k)"
  by (rule nth_equalityI) (auto simp: add.assoc)

lemma blocks_write_bytes [simp]: "blocks (write_bytes m p bs) = blocks m"
  by (simp add: write_bytes_def)

lemma valid_range_write_bytes [simp]: "valid_range (write_bytes m p bs) = valid_range m"
  by (simp add: valid_range_def fun_eq_iff)

lemma wf_memory_write_bytes [simp]: "wf_memory (write_bytes m p bs) = wf_memory m"
  by (simp add: wf_memory_def)

lemma byte_at_write_bytes:
  "byte_at (write_bytes m p bs) a =
     (if p \<le> a \<and> a < p + length bs then bs ! (a - p) else byte_at m a)"
  by (simp add: write_bytes_def)

lemma byte_at_write_bytes_other:
  "a < p \<or> p + length bs \<le> a \<Longrightarrow> byte_at (write_bytes m p bs) a = byte_at m a"
  by (auto simp: byte_at_write_bytes)

lemma memory_eqI:
  "(\<And>a. byte_at m a = byte_at m' a) \<Longrightarrow> blocks m = blocks m' \<Longrightarrow> m = (m' :: memory)"
  by (rule memory.equality) auto

lemma write_bytes_Nil [simp]: "write_bytes m p [] = m"
  by (rule memory_eqI) (auto simp: byte_at_write_bytes)

lemma write_bytes_append:
  "write_bytes (write_bytes m p xs) (p + length xs) ys = write_bytes m p (xs @ ys)"
  by (rule memory_eqI) (auto simp: byte_at_write_bytes nth_append)

lemma read_bytes_write_bytes_same [simp]:
  "n = length bs \<Longrightarrow> read_bytes (write_bytes m p bs) p n = bs"
  by (rule nth_equalityI) (auto simp: byte_at_write_bytes)

lemma read_bytes_write_bytes_disjoint:
  assumes "disjoint_ranges p (length bs) q n"
  shows "read_bytes (write_bytes m p bs) q n = read_bytes m q n"
proof (rule nth_equalityI)
  fix i assume "i < length (read_bytes (write_bytes m p bs) q n)"
  then show "read_bytes (write_bytes m p bs) q n ! i = read_bytes m q n ! i"
    using disjoint_rangesD [OF assms, of "q + i"] by (auto simp: byte_at_write_bytes)
qed simp

lemma load_bytes_valid [mem_simps]:
  "valid_range m p n \<Longrightarrow> load_bytes m p n = Some (read_bytes m p n)"
  by (simp add: load_bytes_def)

lemma store_bytes_valid [mem_simps]:
  "valid_range m p (length bs) \<Longrightarrow> store_bytes m p bs = Some (write_bytes m p bs)"
  by (simp add: store_bytes_def)

lemma memcpy_valid [mem_simps]:
  assumes "valid_range m dst n" and "valid_range m src n" and "disjoint_ranges dst n src n"
  shows "memcpy m dst src n = Some (write_bytes m dst (read_bytes m src n))"
  using assms by (simp add: memcpy_def mem_simps)

lemma memcpy_SomeE:
  assumes "memcpy m dst src n = Some m'"
  obtains "valid_range m dst n" and "valid_range m src n" and "disjoint_ranges dst n src n"
    and "m' = write_bytes m dst (read_bytes m src n)"
  using assms
  by (auto simp: memcpy_def load_bytes_def store_bytes_def split: if_splits bind_splits)

section \<open>Allocation\<close>

lemma blocks_malloc:
  "malloc al m n = (p, m') \<Longrightarrow> p \<noteq> NULL \<Longrightarrow> blocks m' = (p, n) # blocks m \<and> byte_at m' = byte_at m"
  by (auto simp: malloc_def Let_def split: if_splits)

lemma malloc_null: "malloc al m n = (NULL, m') \<Longrightarrow> m' = m"
  by (auto simp: malloc_def Let_def split: if_splits)

lemma malloc_valid:
  "malloc al m n = (p, m') \<Longrightarrow> p \<noteq> NULL \<Longrightarrow> valid_range m' p n"
  by (drule blocks_malloc) (auto simp: valid_range_def)

lemma malloc_keeps_valid:
  "malloc al m n = (p, m') \<Longrightarrow> valid_range m q k \<Longrightarrow> valid_range m' q k"
  by (auto simp: malloc_def Let_def valid_range_def split: if_splits)

lemma wf_memory_Cons:
  "wf_memory m \<Longrightarrow> fresh_range m p n \<Longrightarrow> wf_memory (m\<lparr>blocks := (p, n) # blocks m\<rparr>)"
  by (auto simp: wf_memory_def fresh_range_def list_all_iff)

lemma malloc_wf:
  assumes "wf_memory m" and "allocator_ok al" and "malloc al m n = (p, m')"
  shows "wf_memory m'"
proof -
  have "al m n = NULL \<or> fresh_range m (al m n) n" using assms(2) by (auto simp: allocator_ok_def)
  then show ?thesis
    using assms(1,3) by (auto simp: malloc_def Let_def wf_memory_Cons split: if_splits)
qed

lemma malloc_disjoint:
  assumes "allocator_ok al" and "malloc al m n = (p, m')" and "p \<noteq> NULL" and "valid_range m q k"
  shows "disjoint_ranges p n q k"
proof -
  have "fresh_range m p n"
    using assms(1) [unfolded allocator_ok_def, rule_format, of m n] assms(2,3)
    by (auto simp: malloc_def Let_def split: if_splits)
  then show ?thesis using assms(4)
    by (fastforce simp: fresh_range_def valid_range_def list_ex_iff list_all_iff disjoint_ranges_def)
qed

lemma wf_memory_distinct: "wf_memory m \<Longrightarrow> distinct (map fst (blocks m))"
proof -
  have "sorted_wrt (\<lambda>x y. (case x of (b, l) \<Rightarrow> \<lambda>(c, k). disjoint_ranges b l c k \<and> c \<noteq> b) y) xs \<Longrightarrow>
      distinct (map fst xs)" for xs
    by (induction xs) auto
  then show "wf_memory m \<Longrightarrow> distinct (map fst (blocks m))"
    by (simp add: wf_memory_def split_def)
qed

lemma wf_memory_block_unique:
  "wf_memory m \<Longrightarrow> (p, n) \<in> set (blocks m) \<Longrightarrow> (p, k) \<in> set (blocks m) \<Longrightarrow> n = k"
  using wf_memory_distinct eq_key_imp_eq_value by fast

lemma block_valid_range: "(p, n) \<in> set (blocks m) \<Longrightarrow> valid_range m p n"
  by (force simp: valid_range_def list_ex_iff)

lemma free_block:
  "(p, n) \<in> set (blocks m) \<Longrightarrow> free m p = Some (m\<lparr>blocks := filter (\<lambda>(b, l). b \<noteq> p) (blocks m)\<rparr>)"
  by (force simp: free_def list_ex_iff)

lemma wf_memory_filter: "wf_memory m \<Longrightarrow> wf_memory (m\<lparr>blocks := filter f (blocks m)\<rparr>)"
  by (auto simp: wf_memory_def list_all_iff intro: sorted_wrt_filter)

text \<open>Freeing a block keeps every range that does not meet it.\<close>

lemma free_keeps_valid:
  assumes wf: "wf_memory m" and blk: "(p, k) \<in> set (blocks m)"
    and v: "valid_range m q n" and n: "0 < n" and dis: "disjoint_ranges q n p k"
  shows "valid_range (m\<lparr>blocks := filter (\<lambda>(b, l). b \<noteq> p) (blocks m)\<rparr>) q n"
proof -
  obtain b l where bl: "(b, l) \<in> set (blocks m)" "b \<le> q" "q + n \<le> b + l"
    using v by (auto simp: valid_range_def list_ex_iff)
  have "b \<noteq> p"
  proof
    assume "b = p"
    then have "l = k" using wf_memory_block_unique [OF wf blk] bl(1) by auto
    then show False using bl n dis \<open>b = p\<close> by (auto simp: disjoint_ranges_def)
  qed
  then show ?thesis using bl by (force simp: valid_range_def list_ex_iff)
qed

lemma blocks_disjoint:
  assumes wf: "wf_memory m" and "(p, n) \<in> set (blocks m)" and "(q, k) \<in> set (blocks m)" and "p \<noteq> q"
  shows "disjoint_ranges p n q k"
proof -
  obtain i j where ij: "i < length (blocks m)" "blocks m ! i = (p, n)" "j < length (blocks m)" "blocks m ! j = (q, k)"
    using assms(2,3) by (metis in_set_conv_nth)
  have "sorted_wrt (\<lambda>(b, l) (c, k). disjoint_ranges b l c k \<and> c \<noteq> b) (blocks m)"
    using wf by (simp add: wf_memory_def)
  note srt = sorted_wrt_nth_less [OF this]
  consider "i < j" | "j < i" using assms(4) ij by (cases i j rule: linorder_cases) auto
  then show ?thesis
  proof cases
    case 1
    then show ?thesis using srt [of i j] ij by simp
  next
    case 2
    then show ?thesis using srt [of j i] ij by (simp add: disjoint_ranges_sym)
  qed
qed

section \<open>A sample memory\<close>

text \<open>
  The memory the example instances work on: four objects, among them one page at address
  4096, and every byte holding its address modulo 256.
\<close>

definition sample_memory :: memory where
  "sample_memory = \<lparr>byte_at = (\<lambda>a. of_nat a),
     blocks = [(1000, 100), (2000, 100), (4096, 4096), (16384, 4096)]\<rparr>"

lemma sample_memory_valid [simp]:
  "valid_range sample_memory p n \<longleftrightarrow>
     1000 \<le> p \<and> p + n \<le> 1100 \<or> 2000 \<le> p \<and> p + n \<le> 2100 \<or>
     4096 \<le> p \<and> p + n \<le> 8192 \<or> 16384 \<le> p \<and> p + n \<le> 20480"
  by (simp add: valid_range_def sample_memory_def)

lemma sample_memory_wf: "wf_memory sample_memory"
  by (simp add: wf_memory_def sample_memory_def disjoint_ranges_def)

text \<open>An allocator that places every object above the allocated addresses.\<close>

definition bump_allocator :: allocator where
  "bump_allocator m n =
     (let p = sum_list (map (\<lambda>(b, l). b + l) (blocks m)) + 4096 in
      if p + n \<le> 2 ^ 64 then p else NULL)"

lemma bump_allocator_ok: "allocator_ok bump_allocator"
  unfolding allocator_ok_def
proof (intro allI)
  fix m :: memory and n :: nat
  let ?p = "sum_list (map (\<lambda>(b, l). b + l) (blocks m)) + 4096"
  have above: "b + l < ?p" if "(b, l) \<in> set (blocks m)" for b l
  proof -
    have "b + l \<in> set (map (\<lambda>(b, l). b + l) (blocks m))" using that by force
    then have "b + l \<le> sum_list (map (\<lambda>(b, l). b + l) (blocks m))" by (rule member_le_sum_list) simp
    then show ?thesis by simp
  qed
  show "bump_allocator m n = NULL \<or> fresh_range m (bump_allocator m n) n"
  proof (cases "?p + n \<le> 2 ^ 64")
    case True
    have "list_all (\<lambda>(b, l). disjoint_ranges ?p n b l \<and> b \<noteq> ?p) (blocks m)"
      using above by (fastforce simp: list_all_iff disjoint_ranges_def)
    then show ?thesis using True by (simp add: bump_allocator_def Let_def fresh_range_def)
  qed (simp add: bump_allocator_def Let_def)
qed

end
