(* ===== verification/Xor_Region.thy ===== *)
theory Xor_Region
  imports Memory
begin

text \<open>
  The XOR routine of \<open>src/common.c\<close> with the vector unit selection of
  \<open>src/max_scalar.h\<close>.  The preprocessor's choices are the constructors of
  \<open>scalar_build\<close>; every definition below takes the build as its first argument, and the
  theorems hold for all four builds.  A vector register is the list of its bytes, and the
  XOR intrinsics work on it bytewise; \<open>uint64_t\<close> and \<open>uint32_t\<close> values are machine words,
  loaded and stored in little-endian order.  An aligned vector access to an address that is
  not a multiple of the register's size is undefined, so the theorems show that it never
  happens.
\<close>

section \<open>The build's vector unit (max\_scalar.h)\<close>

datatype scalar_build = AVX2 | SSE2 | WORD64 | WORD32

fun max_scalar_size :: "scalar_build \<Rightarrow> nat" where
  "max_scalar_size AVX2 = 256"
| "max_scalar_size SSE2 = 128"
| "max_scalar_size WORD64 = 64"
| "max_scalar_size WORD32 = 32"

definition max_scalar_bytes :: "scalar_build \<Rightarrow> nat" where
  "max_scalar_bytes b = drop_bit 3 (max_scalar_size b)"

definition max_scalar_align_mask :: "scalar_build \<Rightarrow> u64" where
  "max_scalar_align_mask b = NOT (of_nat (max_scalar_bytes b) - 1)"

type_synonym scalar = "u8 list"

definition max_scalar_load :: "scalar_build \<Rightarrow> memory \<Rightarrow> ptr \<Rightarrow> scalar option" where
  "max_scalar_load b m p = load_bytes m p (max_scalar_bytes b)"

text \<open>
  The aligned loads of both vector units (\<open>_mm256_load_si256\<close>, \<open>_mm_load_si128\<close>) need an
  address that is a multiple of the register's size.  Of the aligned stores only the AVX2
  one does: the SSE2 macro maps to the unaligned instruction \<open>_mm_storeu_si128\<close>.
\<close>

definition max_scalar_load_aligned :: "scalar_build \<Rightarrow> memory \<Rightarrow> ptr \<Rightarrow> scalar option" where
  "max_scalar_load_aligned b m p =
     (if p mod max_scalar_bytes b \<noteq> 0 then None else load_bytes m p (max_scalar_bytes b))"

definition max_scalar_store_aligned :: "scalar_build \<Rightarrow> memory \<Rightarrow> ptr \<Rightarrow> scalar \<Rightarrow> memory option" where
  "max_scalar_store_aligned b m p v =
     (if b = AVX2 \<and> p mod max_scalar_bytes b \<noteq> 0 then None else store_bytes m p v)"

definition max_scalar_xor :: "scalar \<Rightarrow> scalar \<Rightarrow> scalar" where
  "max_scalar_xor v w = map2 (XOR) v w"

section \<open>The routines of common.c\<close>

subsection \<open>\_\_xor\_memory\_region\_simple\<close>

type_synonym xor_cursor = "memory \<times> ptr \<times> ptr \<times> u64"

text \<open>\<open>while (size > sizeof(uint64_t))\<close>: quad words.\<close>

function xor_quad_loop :: "memory \<Rightarrow> ptr \<Rightarrow> ptr \<Rightarrow> u64 \<Rightarrow> xor_cursor option" where
  "xor_quad_loop m dptr mptr sz =
     (if sz > 8 then do {
        v0 \<leftarrow> (load_word m dptr :: u64 option);
        m0 \<leftarrow> (load_word m mptr :: u64 option);
        m1 \<leftarrow> store_word m dptr (v0 XOR m0);
        xor_quad_loop m1 (dptr + 8) (mptr + 8) (sz - 8)
      } else Some (m, dptr, mptr, sz))"
  by pat_completeness auto
termination
  by (relation "measure (\<lambda>(m, d, k, s). unat s)") (auto simp: unat_sub_no_wrap word_less_nat_alt)

text \<open>The double word step of the body, \<open>if\<close> in the 64-bit builds and \<open>while\<close> otherwise.\<close>

definition xor_dword_step :: "memory \<Rightarrow> ptr \<Rightarrow> ptr \<Rightarrow> u64 \<Rightarrow> xor_cursor option" where
  "xor_dword_step m dptr mptr sz = do {
     v0 \<leftarrow> (load_word m dptr :: u32 option);
     m0 \<leftarrow> (load_word m mptr :: u32 option);
     m1 \<leftarrow> store_word m dptr (v0 XOR m0);
     Some (m1, dptr + 4, mptr + 4, sz - 4)
   }"

definition xor_dword_if :: "memory \<Rightarrow> ptr \<Rightarrow> ptr \<Rightarrow> u64 \<Rightarrow> xor_cursor option" where
  "xor_dword_if m dptr mptr sz =
     (if sz > 4 then xor_dword_step m dptr mptr sz else Some (m, dptr, mptr, sz))"

function xor_dword_loop :: "memory \<Rightarrow> ptr \<Rightarrow> ptr \<Rightarrow> u64 \<Rightarrow> xor_cursor option" where
  "xor_dword_loop m dptr mptr sz =
     (if sz > 4 then do {
        v0 \<leftarrow> (load_word m dptr :: u32 option);
        m0 \<leftarrow> (load_word m mptr :: u32 option);
        m1 \<leftarrow> store_word m dptr (v0 XOR m0);
        xor_dword_loop m1 (dptr + 4) (mptr + 4) (sz - 4)
      } else Some (m, dptr, mptr, sz))"
  by pat_completeness auto
termination
  by (relation "measure (\<lambda>(m, d, k, s). unat s)") (auto simp: unat_sub_no_wrap word_less_nat_alt)

text \<open>\<open>while (size-- > 0)\<close>: single bytes.\<close>

function xor_byte_loop :: "memory \<Rightarrow> ptr \<Rightarrow> ptr \<Rightarrow> u64 \<Rightarrow> memory option" where
  "xor_byte_loop m dptr mptr sz =
     (if sz > 0 then do {
        v0 \<leftarrow> (load_word m dptr :: u8 option);
        m0 \<leftarrow> (load_word m mptr :: u8 option);
        m1 \<leftarrow> store_word m dptr (v0 XOR m0);
        xor_byte_loop m1 (dptr + 1) (mptr + 1) (sz - 1)
      } else Some m)"
  by pat_completeness auto
termination
  by (relation "measure (\<lambda>(m, d, k, s). unat s)") (auto simp: unat_sub_no_wrap word_less_nat_alt)

declare xor_quad_loop.simps [simp del] xor_dword_loop.simps [simp del] xor_byte_loop.simps [simp del]

definition xor_memory_region_simple ::
    "scalar_build \<Rightarrow> memory \<Rightarrow> ptr \<Rightarrow> ptr \<Rightarrow> u64 \<Rightarrow> memory option" where
  "xor_memory_region_simple b m dptr mptr sz = do {
     (m1, d1, k1, s1) \<leftarrow>
       (if max_scalar_size b \<ge> 64 then xor_quad_loop m dptr mptr sz else Some (m, dptr, mptr, sz));
     (m2, d2, k2, s2) \<leftarrow>
       (if max_scalar_size b \<ge> 64 then xor_dword_if m1 d1 k1 s1 else xor_dword_loop m1 d1 k1 s1);
     xor_byte_loop m2 d2 k2 s2
   }"

subsection \<open>\_\_xor\_memory\_region\_aligned\_both and \_aligned\_dptr\<close>

text \<open>
  The two routines differ in how they load the mask: \<open>aligned_both\<close> uses the aligned load,
  \<open>aligned_dptr\<close> the unaligned one.  The loader is the argument \<open>ld\<close> of the shared loops.
  \<open>scalar_sz b\<close> is \<open>sizeof(max_scalar_t)\<close> at type \<open>size_t\<close>.
\<close>

type_synonym mask_loader = "memory \<Rightarrow> ptr \<Rightarrow> scalar option"

definition scalar_sz :: "scalar_build \<Rightarrow> u64" where
  "scalar_sz b = of_nat (max_scalar_bytes b)"

lemma max_scalar_bytes_simps [simp]:
  "max_scalar_bytes AVX2 = 32" "max_scalar_bytes SSE2 = 16"
  "max_scalar_bytes WORD64 = 8" "max_scalar_bytes WORD32 = 4"
  by (simp_all add: max_scalar_bytes_def drop_bit_eq_div)

lemma unat_scalar_sz [simp]: "unat (scalar_sz b) = max_scalar_bytes b"
  by (cases b) (simp_all add: scalar_sz_def)

lemma unat_scalar_sz4 [simp]: "unat (scalar_sz b * 4) = max_scalar_bytes b * 4"
  by (cases b) (simp_all add: scalar_sz_def)

lemma max_scalar_bytes_pos [simp]: "0 < max_scalar_bytes b"
  by (cases b) simp_all

text \<open>Four scalars per round: the first two are stored before the last two are loaded.\<close>

definition xor_four_scalars :: "mask_loader \<Rightarrow> scalar_build \<Rightarrow> memory \<Rightarrow> ptr \<Rightarrow> ptr \<Rightarrow> memory option" where
  "xor_four_scalars ld b m dptr mptr = (let n = max_scalar_bytes b in do {
     s0 \<leftarrow> max_scalar_load_aligned b m (dptr + n * 0);
     s1 \<leftarrow> max_scalar_load_aligned b m (dptr + n * 1);
     m0 \<leftarrow> ld m (mptr + n * 0);
     m1 \<leftarrow> ld m (mptr + n * 1);
     m \<leftarrow> max_scalar_store_aligned b m (dptr + n * 0) (max_scalar_xor s0 m0);
     m \<leftarrow> max_scalar_store_aligned b m (dptr + n * 1) (max_scalar_xor s1 m1);
     s2 \<leftarrow> max_scalar_load_aligned b m (dptr + n * 2);
     s3 \<leftarrow> max_scalar_load_aligned b m (dptr + n * 3);
     m2 \<leftarrow> ld m (mptr + n * 2);
     m3 \<leftarrow> ld m (mptr + n * 3);
     m \<leftarrow> max_scalar_store_aligned b m (dptr + n * 2) (max_scalar_xor s2 m2);
     max_scalar_store_aligned b m (dptr + n * 3) (max_scalar_xor s3 m3)
   })"

function xor_unrolled_loop ::
    "mask_loader \<Rightarrow> scalar_build \<Rightarrow> memory \<Rightarrow> ptr \<Rightarrow> ptr \<Rightarrow> u64 \<Rightarrow> xor_cursor option" where
  "xor_unrolled_loop ld b m dptr mptr sz =
     (if sz \<ge> scalar_sz b * 4 then do {
        m1 \<leftarrow> xor_four_scalars ld b m dptr mptr;
        xor_unrolled_loop ld b m1 (dptr + max_scalar_bytes b * 4) (mptr + max_scalar_bytes b * 4)
          (sz - scalar_sz b * 4)
      } else Some (m, dptr, mptr, sz))"
  by pat_completeness auto
termination
  by (relation "measure (\<lambda>(ld, b, m, d, k, s). unat s)") (auto intro!: unat_diff_less)

definition xor_one_scalar :: "mask_loader \<Rightarrow> scalar_build \<Rightarrow> memory \<Rightarrow> ptr \<Rightarrow> ptr \<Rightarrow> memory option" where
  "xor_one_scalar ld b m dptr mptr = do {
     s0 \<leftarrow> max_scalar_load_aligned b m dptr;
     m0 \<leftarrow> ld m mptr;
     max_scalar_store_aligned b m dptr (max_scalar_xor s0 m0)
   }"

function xor_scalar_loop ::
    "mask_loader \<Rightarrow> scalar_build \<Rightarrow> memory \<Rightarrow> ptr \<Rightarrow> ptr \<Rightarrow> u64 \<Rightarrow> xor_cursor option" where
  "xor_scalar_loop ld b m dptr mptr sz =
     (if sz \<ge> scalar_sz b then do {
        m1 \<leftarrow> xor_one_scalar ld b m dptr mptr;
        xor_scalar_loop ld b m1 (dptr + max_scalar_bytes b) (mptr + max_scalar_bytes b)
          (sz - scalar_sz b)
      } else Some (m, dptr, mptr, sz))"
  by pat_completeness auto
termination
  by (relation "measure (\<lambda>(ld, b, m, d, k, s). unat s)") (auto intro!: unat_diff_less)

declare xor_unrolled_loop.simps [simp del] xor_scalar_loop.simps [simp del]

definition xor_aligned_with ::
    "mask_loader \<Rightarrow> scalar_build \<Rightarrow> memory \<Rightarrow> ptr \<Rightarrow> ptr \<Rightarrow> u64 \<Rightarrow> memory option" where
  "xor_aligned_with ld b m dptr mptr sz = do {
     (m1, d1, k1, s1) \<leftarrow> xor_unrolled_loop ld b m dptr mptr sz;
     (m2, d2, k2, s2) \<leftarrow> xor_scalar_loop ld b m1 d1 k1 s1;
     if s2 \<noteq> 0 then xor_memory_region_simple b m2 d2 k2 s2 else Some m2
   }"

definition xor_memory_region_aligned_both ::
    "scalar_build \<Rightarrow> memory \<Rightarrow> ptr \<Rightarrow> ptr \<Rightarrow> u64 \<Rightarrow> memory option" where
  "xor_memory_region_aligned_both b = xor_aligned_with (max_scalar_load_aligned b) b"

definition xor_memory_region_aligned_dptr ::
    "scalar_build \<Rightarrow> memory \<Rightarrow> ptr \<Rightarrow> ptr \<Rightarrow> u64 \<Rightarrow> memory option" where
  "xor_memory_region_aligned_dptr b = xor_aligned_with (max_scalar_load b) b"

subsection \<open>xor\_memory\_region\<close>

definition unaligned_tail :: "scalar_build \<Rightarrow> ptr \<Rightarrow> u64" where
  "unaligned_tail b p = of_nat p AND NOT (max_scalar_align_mask b)"

text \<open>The part after the head of the destination has been aligned.\<close>

definition xor_memory_region_body ::
    "scalar_build \<Rightarrow> memory \<Rightarrow> ptr \<Rightarrow> ptr \<Rightarrow> u64 \<Rightarrow> memory option" where
  "xor_memory_region_body b m dptr mptr sz =
     (if max_scalar_size b > 64 then
        let mask_unaligned_tail = unaligned_tail b mptr in
        if mask_unaligned_tail \<noteq> 0 then xor_memory_region_aligned_dptr b m dptr mptr sz
        else xor_memory_region_aligned_both b m dptr mptr sz
      else xor_memory_region_simple b m dptr mptr sz)"

definition xor_memory_region ::
    "scalar_build \<Rightarrow> memory \<Rightarrow> ptr \<Rightarrow> ptr \<Rightarrow> u64 \<Rightarrow> memory option" where
  "xor_memory_region b m dptr mptr sz =
     (let dptr_unaligned_tail = unaligned_tail b dptr in
      if dptr_unaligned_tail \<noteq> 0 then
        let count = scalar_sz b - dptr_unaligned_tail in
        if sz \<le> count then xor_memory_region_simple b m dptr mptr sz
        else do {
          m1 \<leftarrow> xor_memory_region_simple b m dptr mptr count;
          xor_memory_region_body b m1 (dptr + unat count) (mptr + unat count) (sz - count)
        }
      else xor_memory_region_body b m dptr mptr sz)"

section \<open>The specification: bytewise XOR of a region\<close>

definition xor_range :: "memory \<Rightarrow> ptr \<Rightarrow> ptr \<Rightarrow> nat \<Rightarrow> memory" where
  "xor_range m d k n = write_bytes m d (map2 (XOR) (read_bytes m d n) (read_bytes m k n))"

text \<open>What the routines rely on: both regions are allocated and they do not overlap.\<close>

definition xor_ok :: "memory \<Rightarrow> ptr \<Rightarrow> ptr \<Rightarrow> nat \<Rightarrow> bool" where
  "xor_ok m d k n \<longleftrightarrow> valid_range m d n \<and> valid_range m k n \<and> disjoint_ranges d n k n"

lemma blocks_xor_range [simp]: "blocks (xor_range m d k n) = blocks m"
  by (simp add: xor_range_def)

lemma valid_range_xor_range [simp]: "valid_range (xor_range m d k n) = valid_range m"
  by (simp add: xor_range_def)

lemma wf_memory_xor_range [simp]: "wf_memory (xor_range m d k n) = wf_memory m"
  by (simp add: xor_range_def)

lemma xor_range_0 [simp]: "xor_range m d k 0 = m"
  by (simp add: xor_range_def)

lemma byte_at_xor_range:
  "byte_at (xor_range m d k n) a =
     (if d \<le> a \<and> a < d + n then byte_at m a XOR byte_at m (k + (a - d)) else byte_at m a)"
  by (auto simp: xor_range_def byte_at_write_bytes)

lemma xor_range_add:
  assumes "disjoint_ranges d (a + b) k (a + b)"
  shows "xor_range (xor_range m d k a) (d + a) (k + a) b = xor_range m d k (a + b)"
proof (rule memory_eqI)
  fix x
  have "\<not> (d \<le> y \<and> y < d + a)" if "k \<le> y" and "y < k + (a + b)" for y
    using disjoint_rangesD [OF assms, of y] that by auto
  then show "byte_at (xor_range (xor_range m d k a) (d + a) (k + a) b) x
      = byte_at (xor_range m d k (a + b)) x"
    by (auto simp: byte_at_xor_range)
qed simp

lemma xor_ok_rest:
  assumes "xor_ok m d k n" and "j \<le> n"
  shows "xor_ok (xor_range m d k j) (d + j) (k + j) (n - j)"
  using assms unfolding xor_ok_def
  by (auto simp: disjoint_ranges_def intro: valid_range_sub)

lemma xor_ok_prefix: "xor_ok m d k n \<Longrightarrow> j \<le> n \<Longrightarrow> xor_ok m d k j"
  unfolding xor_ok_def by (auto simp: disjoint_ranges_def intro: valid_range_sub)

section \<open>Progress of the loops\<close>

text \<open>
  A loop that starts with \<open>n\<close> bytes to go has progressed when some number \<open>j\<close> of bytes, a
  multiple of \<open>q\<close>, has been XORed and the cursor stands \<open>j\<close> bytes further.
\<close>

definition xor_progress ::
    "nat \<Rightarrow> memory \<Rightarrow> ptr \<Rightarrow> ptr \<Rightarrow> nat \<Rightarrow> xor_cursor \<Rightarrow> bool" where
  "xor_progress q m d k n r \<longleftrightarrow>
     (\<exists>j s. j \<le> n \<and> q dvd j \<and> r = (xor_range m d k j, d + j, k + j, s) \<and> unat s = n - j)"

lemma xor_progress_refl: "xor_progress q m d k (unat s) (m, d, k, s)"
  unfolding xor_progress_def by (rule exI [of _ 0]) simp

lemma xor_progress_step:
  assumes "xor_ok m d k n" and "j \<le> n" and "q dvd j"
    and "xor_progress q (xor_range m d k j) (d + j) (k + j) (n - j) r"
  shows "xor_progress q m d k n r"
proof -
  obtain i s where i: "i \<le> n - j" "q dvd i" "unat s = n - j - i"
    and r: "r = (xor_range (xor_range m d k j) (d + j) (k + j) i, d + j + i, k + j + i, s)"
    using assms(4) unfolding xor_progress_def by auto
  have "disjoint_ranges d (j + i) k (j + i)"
    using assms(1,2) i(1) unfolding xor_ok_def by (auto elim!: disjoint_ranges_sub)
  then have "r = (xor_range m d k (j + i), d + (j + i), k + (j + i), s)"
    by (simp add: r xor_range_add add.assoc)
  then show ?thesis
    unfolding xor_progress_def using i assms(2,3)
    by (intro exI [of _ "j + i"] exI [of _ s]) auto
qed

lemma xor_loop_step:
  assumes ok: "xor_ok m d k (unat s)" and c: "unat cw = c" "c \<le> unat s" "q dvd c"
    and rest: "xor_ok (xor_range m d k c) (d + c) (k + c) (unat (s - cw)) \<Longrightarrow>
      \<exists>r. next_iter = Some r \<and>
        xor_progress q (xor_range m d k c) (d + c) (k + c) (unat (s - cw)) r"
  shows "\<exists>r. next_iter = Some r \<and> xor_progress q m d k (unat s) r"
proof -
  have left: "unat (s - cw) = unat s - c" using c by (simp add: unat_sub_no_wrap)
  obtain r where "next_iter = Some r"
    and "xor_progress q (xor_range m d k c) (d + c) (k + c) (unat s - c) r"
    using rest xor_ok_rest [OF ok c(2)] left by auto
  then show ?thesis using xor_progress_step [OF ok c(2,3)] by blast
qed

text \<open>One word-wide read, XOR and write.\<close>

lemma xor_word_bind:
  fixes f :: "memory \<Rightarrow> 'b option"
  assumes len: "8 * c = LENGTH('a::len)" and ok: "xor_ok m d k n" and c: "c \<le> n"
  shows "Option.bind (load_word m d) (\<lambda>v :: 'a word. Option.bind (load_word m k)
           (\<lambda>w. Option.bind (store_word m d (v XOR w)) f)) = f (xor_range m d k c)"
proof -
  have div: "LENGTH('a) div 8 = c" using len [symmetric] by simp
  have v: "valid_range m d c" "valid_range m k c"
    using ok c by (auto simp: xor_ok_def elim: valid_range_prefix)
  have b: "bytes_of_word (word_of_bytes (read_bytes m p c) :: 'a word) = read_bytes m p c" for p
    by (rule bytes_of_word_of_bytes) (simp add: len)
  show ?thesis
    by (simp add: load_word_def store_word_def div mem_simps v bytes_of_word_xor b
        flip: xor_range_def)
qed

lemma xor_quad_loop_progress:
  "xor_ok m d k (unat s) \<Longrightarrow>
   \<exists>r. xor_quad_loop m d k s = Some r \<and> xor_progress 1 m d k (unat s) r"
proof (induction "unat s" arbitrary: m d k s rule: less_induct)
  case less
  show ?case
  proof (cases "s > 8")
    case True
    then have le: "8 \<le> unat s" by (simp add: word_less_nat_alt)
    have "xor_quad_loop m d k s = xor_quad_loop (xor_range m d k 8) (d + 8) (k + 8) (s - 8)"
      using True by (simp add: xor_quad_loop.simps [of m d k s] xor_word_bind [OF _ less.prems le])
    moreover have "unat (s - 8) < unat s" using True by (intro unat_diff_less) auto
    ultimately show ?thesis
      using xor_loop_step [OF less.prems, of 8 8 1] le less.hyps by simp
  qed (simp add: xor_quad_loop.simps xor_progress_refl)
qed

lemma xor_dword_loop_progress:
  "xor_ok m d k (unat s) \<Longrightarrow>
   \<exists>r. xor_dword_loop m d k s = Some r \<and> xor_progress 1 m d k (unat s) r"
proof (induction "unat s" arbitrary: m d k s rule: less_induct)
  case less
  show ?case
  proof (cases "s > 4")
    case True
    then have le: "4 \<le> unat s" by (simp add: word_less_nat_alt)
    have "xor_dword_loop m d k s = xor_dword_loop (xor_range m d k 4) (d + 4) (k + 4) (s - 4)"
      using True by (simp add: xor_dword_loop.simps [of m d k s] xor_word_bind [OF _ less.prems le])
    moreover have "unat (s - 4) < unat s" using True by (intro unat_diff_less) auto
    ultimately show ?thesis
      using xor_loop_step [OF less.prems, of 4 4 1] le less.hyps by simp
  qed (simp add: xor_dword_loop.simps xor_progress_refl)
qed

lemma xor_dword_if_progress:
  assumes ok: "xor_ok m d k (unat s)"
  shows "\<exists>r. xor_dword_if m d k s = Some r \<and> xor_progress 1 m d k (unat s) r"
proof (cases "s > 4")
  case True
  then have le: "4 \<le> unat s" by (simp add: word_less_nat_alt)
  have "xor_dword_if m d k s = Some (xor_range m d k 4, d + 4, k + 4, s - 4)"
    using True by (simp add: xor_dword_if_def xor_dword_step_def xor_word_bind [OF _ ok le])
  then show ?thesis
    using xor_loop_step [OF ok, of 4 4 1 "xor_dword_if m d k s"] le by (simp add: xor_progress_refl)
qed (simp add: xor_dword_if_def xor_progress_refl)

lemma xor_byte_loop_result:
  "xor_ok m d k (unat s) \<Longrightarrow> xor_byte_loop m d k s = Some (xor_range m d k (unat s))"
proof (induction "unat s" arbitrary: m d k s rule: less_induct)
  case less
  show ?case
  proof (cases "s > 0")
    case True
    then have le: "1 \<le> unat s" by (simp add: word_less_nat_alt)
    then have left: "unat (s - 1) = unat s - 1" by (simp add: unat_sub_no_wrap)
    have "xor_byte_loop m d k s = xor_byte_loop (xor_range m d k 1) (d + 1) (k + 1) (s - 1)"
      using True by (simp add: xor_byte_loop.simps [of m d k s] xor_word_bind [OF _ less.prems le])
    also have "\<dots> = Some (xor_range (xor_range m d k 1) (d + 1) (k + 1) (unat s - 1))"
      using less.hyps [of "s - 1"] xor_ok_rest [OF less.prems le] le left by simp
    finally show ?thesis
      using xor_range_add [of d 1 "unat s - 1" k m] less.prems le by (simp add: xor_ok_def)
  qed (simp add: xor_byte_loop.simps word_gt_0)
qed

text \<open>A finished cursor followed by a routine that does the rest completes the region.\<close>

lemma xor_progress_finish:
  assumes ok: "xor_ok m d k n" and pr: "xor_progress q m d k n (m', d', k', s')"
    and rest: "\<And>u. xor_ok m' d' k' (unat s') \<Longrightarrow> f = Some (xor_range m' d' k' (unat s'))"
  shows "f = Some (xor_range m d k n)"
proof -
  obtain j where j: "j \<le> n" "unat s' = n - j" and m': "m' = xor_range m d k j" "d' = d + j" "k' = k + j"
    using pr unfolding xor_progress_def by auto
  have "f = Some (xor_range m' d' k' (n - j))"
    using rest xor_ok_rest [OF ok j(1)] by (simp add: j m')
  then show ?thesis
    using xor_range_add [of d j "n - j" k m] ok j(1) by (simp add: m' xor_ok_def)
qed

lemma xor_progress_ok:
  assumes "xor_ok m d k n" and "xor_progress q m d k n (m', d', k', s')"
  shows "xor_ok m' d' k' (unat s')"
  using assms xor_ok_rest unfolding xor_progress_def by auto

lemma xor_memory_region_simple_result:
  assumes ok: "xor_ok m d k (unat s)"
  shows "xor_memory_region_simple b m d k s = Some (xor_range m d k (unat s))"
proof -
  obtain m1 d1 k1 s1 where q:
      "(if max_scalar_size b \<ge> 64 then xor_quad_loop m d k s else Some (m, d, k, s)) = Some (m1, d1, k1, s1)"
    and p1: "xor_progress 1 m d k (unat s) (m1, d1, k1, s1)"
    using xor_quad_loop_progress [OF ok] xor_progress_refl by (metis (full_types) prod_cases4)
  have ok1: "xor_ok m1 d1 k1 (unat s1)" by (rule xor_progress_ok [OF ok p1])
  obtain m2 d2 k2 s2 where w:
      "(if max_scalar_size b \<ge> 64 then xor_dword_if m1 d1 k1 s1 else xor_dword_loop m1 d1 k1 s1)
        = Some (m2, d2, k2, s2)"
    and p2: "xor_progress 1 m1 d1 k1 (unat s1) (m2, d2, k2, s2)"
    using xor_dword_if_progress [OF ok1] xor_dword_loop_progress [OF ok1] by (metis prod_cases4)
  have "xor_byte_loop m2 d2 k2 s2 = Some (xor_range m1 d1 k1 (unat s1))"
    by (rule xor_progress_finish [OF ok1 p2]) (rule xor_byte_loop_result)
  then have "xor_byte_loop m2 d2 k2 s2 = Some (xor_range m d k (unat s))"
    by (rule xor_progress_finish [OF ok p1])
  then show ?thesis by (simp only: xor_memory_region_simple_def q w bind.bind_lunit prod.case)
qed

section \<open>The aligned routines\<close>

definition aligned_for :: "scalar_build \<Rightarrow> ptr \<Rightarrow> bool" where
  "aligned_for b p \<longleftrightarrow> p mod max_scalar_bytes b = 0"

text \<open>The mask loader reads every scalar of the mask that starts at \<open>k\<close>.\<close>

definition mask_ready :: "mask_loader \<Rightarrow> scalar_build \<Rightarrow> ptr \<Rightarrow> bool" where
  "mask_ready ld b k \<longleftrightarrow>
     (\<forall>m j. max_scalar_bytes b dvd j \<longrightarrow> ld m (k + j) = load_bytes m (k + j) (max_scalar_bytes b))"

lemma aligned_for_add:
  "aligned_for b d \<Longrightarrow> max_scalar_bytes b dvd j \<Longrightarrow> aligned_for b (d + j)"
  by (auto simp: aligned_for_def elim!: dvdE)

lemma mask_ready_add:
  "mask_ready ld b k \<Longrightarrow> max_scalar_bytes b dvd j \<Longrightarrow> mask_ready ld b (k + j)"
  by (simp add: mask_ready_def add.assoc)

lemma mask_ready_load: "mask_ready (max_scalar_load b) b k"
  by (simp add: mask_ready_def max_scalar_load_def)

lemma mask_ready_load_aligned: "aligned_for b k \<Longrightarrow> mask_ready (max_scalar_load_aligned b) b k"
  using aligned_for_add by (auto simp: mask_ready_def max_scalar_load_aligned_def aligned_for_def)

lemma load_aligned_valid:
  "aligned_for b p \<Longrightarrow> valid_range m p (max_scalar_bytes b) \<Longrightarrow>
   max_scalar_load_aligned b m p = Some (read_bytes m p (max_scalar_bytes b))"
  by (auto simp: max_scalar_load_aligned_def aligned_for_def mem_simps)

lemma store_aligned_valid:
  "aligned_for b p \<Longrightarrow> valid_range m p (length v) \<Longrightarrow>
   max_scalar_store_aligned b m p v = Some (write_bytes m p v)"
  by (auto simp: max_scalar_store_aligned_def aligned_for_def mem_simps)

lemma loader_valid:
  "mask_ready ld b k \<Longrightarrow> max_scalar_bytes b dvd j \<Longrightarrow> valid_range m (k + j) (max_scalar_bytes b) \<Longrightarrow>
   ld m (k + j) = Some (read_bytes m (k + j) (max_scalar_bytes b))"
  by (simp add: mask_ready_def mem_simps)

lemma xor_one_scalar_result:
  assumes "aligned_for b d" and "mask_ready ld b k" and "xor_ok m d k n" and "max_scalar_bytes b \<le> n"
  shows "xor_one_scalar ld b m d k = Some (xor_range m d k (max_scalar_bytes b))"
proof -
  have "valid_range m d (max_scalar_bytes b)" "valid_range m k (max_scalar_bytes b)"
    using assms(3,4) by (auto simp: xor_ok_def elim: valid_range_prefix)
  then show ?thesis
    using assms(1) loader_valid [OF assms(2), of 0 m]
    by (simp add: xor_one_scalar_def load_aligned_valid store_aligned_valid max_scalar_xor_def xor_range_def)
qed

text \<open>
  The unrolled round is four single rounds: the loads it moves ahead of the first two
  stores read bytes those stores do not touch.
\<close>

lemma xor_four_scalars_as_single:
  assumes al: "aligned_for b d" and ld: "mask_ready ld b k"
    and ok: "xor_ok m d k (max_scalar_bytes b * 4)"
  shows "xor_four_scalars ld b m d k = Some (xor_range m d k (max_scalar_bytes b * 4))"
proof -
  define n where "n = max_scalar_bytes b"
  have al': "aligned_for b (d + n * i)" for i
    using aligned_for_add [OF al] by (simp add: n_def)
  have v: "valid_range m (d + n * i) n" "valid_range m (k + n * i) n" if "i < 4" for i
  proof -
    have "n * i + n \<le> n * 4" using mult_le_mono2 [of "Suc i" 4 n] that by simp
    moreover have "valid_range m d (n * 4)" "valid_range m k (n * 4)"
      using ok by (simp_all add: xor_ok_def n_def)
    ultimately show "valid_range m (d + n * i) n" "valid_range m (k + n * i) n"
      by (simp_all add: valid_range_sub)
  qed
  have ldv: "ld m' (k + n * i) = Some (read_bytes m' (k + n * i) n)"
    if "valid_range m' = valid_range m" "i < 4" for i m'
    using loader_valid [OF ld, of "n * i" m'] v [OF that(2)] that(1) by (simp add: n_def)
  have dis: "disjoint_ranges d (n * 4) k (n * 4)" using ok by (simp add: xor_ok_def n_def)
  define x where "x i = map2 (XOR) (read_bytes m (d + n * i) n) (read_bytes m (k + n * i) n)" for i
  have lx [simp]: "length (x i) = n" for i by (simp add: x_def)
  define m2 where "m2 = write_bytes m d (x 0 @ x 1)"
  have m2: "write_bytes (write_bytes m d (x 0)) (d + n) (x 1) = m2"
    using write_bytes_append [of m d "x 0" "x 1"] by (simp add: m2_def)
  have vm2: "valid_range m2 = valid_range m" by (simp add: m2_def)
  have r2: "read_bytes m2 (d + n * i) n = read_bytes m (d + n * i) n"
      "read_bytes m2 (k + n * i) n = read_bytes m (k + n * i) n" if "i \<in> {2, 3}" for i
    using that dis unfolding m2_def
    by (auto intro!: read_bytes_write_bytes_disjoint simp: disjoint_ranges_def)
  have m4: "write_bytes (write_bytes m2 (d + n * 2) (x 2)) (d + n * 3) (x 3) =
      write_bytes m d (x 0 @ x 1 @ x 2 @ x 3)"
  proof -
    have e: "n + n = n * 2" "n + n * 2 = n * 3" by simp_all
    show ?thesis
      using write_bytes_append [of m d "x 0 @ x 1" "x 2"]
        write_bytes_append [of m d "x 0 @ x 1 @ x 2" "x 3"]
      by (simp add: m2_def e)
  qed
  have "xor_range m d k (n * 4) = write_bytes m d (x 0 @ x 1 @ x 2 @ x 3)"
    using read_bytes_add [of m d n "n * 3"] read_bytes_add [of m k n "n * 3"]
      read_bytes_add [of m "d + n" n "n * 2"] read_bytes_add [of m "k + n" n "n * 2"]
      read_bytes_add [of m "d + n * 2" n n] read_bytes_add [of m "k + n * 2" n n]
    by (simp add: xor_range_def x_def numeral_eq_Suc add.assoc map2_append)
  moreover have "xor_four_scalars ld b m d k =
      Some (write_bytes (write_bytes m2 (d + n * 2) (x 2)) (d + n * 3) (x 3))"
  proof -
    have a: "aligned_for b d" "aligned_for b (d + n)" "aligned_for b (d + n * 2)" "aligned_for b (d + n * 3)"
      using al al' [of 1] al' [of 2] al' [of 3] by simp_all
    have w: "valid_range m d n" "valid_range m (d + n) n" "valid_range m (d + n * 2) n" "valid_range m (d + n * 3) n"
      using v(1) [of 0] v(1) [of 1] v(1) [of 2] v(1) [of 3] by simp_all
    have l: "ld m k = Some (read_bytes m k n)" "ld m (k + n) = Some (read_bytes m (k + n) n)"
      "ld m2 (k + n * 2) = Some (read_bytes m (k + n * 2) n)" "ld m2 (k + n * 3) = Some (read_bytes m (k + n * 3) n)"
      using ldv [of m 0] ldv [of m 1] ldv [OF vm2, of 2] ldv [OF vm2, of 3] r2(2) by simp_all
    have x: "max_scalar_xor (read_bytes m d n) (read_bytes m k n) = x 0"
      "max_scalar_xor (read_bytes m (d + n) n) (read_bytes m (k + n) n) = x 1"
      "max_scalar_xor (read_bytes m (d + n * 2) n) (read_bytes m (k + n * 2) n) = x 2"
      "max_scalar_xor (read_bytes m (d + n * 3) n) (read_bytes m (k + n * 3) n) = x 3"
      by (simp_all add: x_def max_scalar_xor_def)
    have la: "max_scalar_load_aligned b m' p = Some (read_bytes m' p n)"
      if "aligned_for b p" "valid_range m' p n" for m' p
      using load_aligned_valid that by (simp add: n_def)
    have sa: "max_scalar_store_aligned b m' p (x i) = Some (write_bytes m' p (x i))"
      if "aligned_for b p" "valid_range m' p n" for m' p i
      using store_aligned_valid that by simp
    show ?thesis
      by (simp add: xor_four_scalars_def Let_def flip: n_def add: a w l x la sa m2 vm2 r2 del: One_nat_def)
  qed
  ultimately show ?thesis using m4 by (simp add: n_def)
qed

lemma xor_unrolled_loop_progress:
  "xor_ok m d k (unat s) \<Longrightarrow> aligned_for b d \<Longrightarrow> mask_ready ld b k \<Longrightarrow>
   \<exists>r. xor_unrolled_loop ld b m d k s = Some r \<and> xor_progress (max_scalar_bytes b) m d k (unat s) r"
proof (induction "unat s" arbitrary: m d k s rule: less_induct)
  case less
  let ?c = "max_scalar_bytes b * 4"
  show ?case
  proof (cases "s \<ge> scalar_sz b * 4")
    case True
    then have le: "?c \<le> unat s" by (simp add: word_le_nat_alt)
    have "xor_unrolled_loop ld b m d k s =
        xor_unrolled_loop ld b (xor_range m d k ?c) (d + ?c) (k + ?c) (s - scalar_sz b * 4)"
      using True xor_four_scalars_as_single [OF less.prems(2,3) xor_ok_prefix [OF less.prems(1) le]]
      by (simp add: xor_unrolled_loop.simps [of ld b m d k s])
    moreover have "unat (s - scalar_sz b * 4) < unat s" using True by (intro unat_diff_less) auto
    moreover have "aligned_for b (d + ?c)" "mask_ready ld b (k + ?c)"
      using less.prems by (auto intro: aligned_for_add mask_ready_add)
    ultimately show ?thesis
      using xor_loop_step [OF less.prems(1), of "scalar_sz b * 4" ?c "max_scalar_bytes b"] le less.hyps by simp
  qed (simp add: xor_unrolled_loop.simps [of ld b m d k s] xor_progress_refl)
qed

lemma xor_scalar_loop_progress:
  "xor_ok m d k (unat s) \<Longrightarrow> aligned_for b d \<Longrightarrow> mask_ready ld b k \<Longrightarrow>
   \<exists>r. xor_scalar_loop ld b m d k s = Some r \<and> xor_progress (max_scalar_bytes b) m d k (unat s) r"
proof (induction "unat s" arbitrary: m d k s rule: less_induct)
  case less
  let ?c = "max_scalar_bytes b"
  show ?case
  proof (cases "s \<ge> scalar_sz b")
    case True
    then have le: "?c \<le> unat s" by (simp add: word_le_nat_alt)
    have "xor_scalar_loop ld b m d k s =
        xor_scalar_loop ld b (xor_range m d k ?c) (d + ?c) (k + ?c) (s - scalar_sz b)"
      using True xor_one_scalar_result [OF less.prems(2,3,1) le]
      by (simp add: xor_scalar_loop.simps [of ld b m d k s])
    moreover have "unat (s - scalar_sz b) < unat s" using True by (intro unat_diff_less) auto
    moreover have "aligned_for b (d + ?c)" "mask_ready ld b (k + ?c)"
      using less.prems by (auto intro: aligned_for_add mask_ready_add)
    ultimately show ?thesis
      using xor_loop_step [OF less.prems(1), of "scalar_sz b" ?c "max_scalar_bytes b"] le less.hyps by simp
  qed (simp add: xor_scalar_loop.simps [of ld b m d k s] xor_progress_refl)
qed

lemma xor_aligned_with_result:
  assumes ok: "xor_ok m d k (unat s)" and al: "aligned_for b d" and ld: "mask_ready ld b k"
  shows "xor_aligned_with ld b m d k s = Some (xor_range m d k (unat s))"
proof -
  obtain m1 d1 k1 s1 where u: "xor_unrolled_loop ld b m d k s = Some (m1, d1, k1, s1)"
    and p1: "xor_progress (max_scalar_bytes b) m d k (unat s) (m1, d1, k1, s1)"
    using xor_unrolled_loop_progress [OF assms] by (metis prod_cases4)
  have ok1: "xor_ok m1 d1 k1 (unat s1)" by (rule xor_progress_ok [OF ok p1])
  have "aligned_for b d1" "mask_ready ld b k1"
    using p1 al ld by (auto simp: xor_progress_def intro: aligned_for_add mask_ready_add)
  then obtain m2 d2 k2 s2 where w: "xor_scalar_loop ld b m1 d1 k1 s1 = Some (m2, d2, k2, s2)"
    and p2: "xor_progress (max_scalar_bytes b) m1 d1 k1 (unat s1) (m2, d2, k2, s2)"
    using xor_scalar_loop_progress [OF ok1] by (metis prod_cases4)
  let ?f = "if s2 \<noteq> 0 then xor_memory_region_simple b m2 d2 k2 s2 else Some m2"
  have "?f = Some (xor_range m1 d1 k1 (unat s1))"
    by (rule xor_progress_finish [OF ok1 p2]) (simp add: xor_memory_region_simple_result)
  then have "?f = Some (xor_range m d k (unat s))"
    by (rule xor_progress_finish [OF ok p1])
  then show ?thesis by (simp only: xor_aligned_with_def u w bind.bind_lunit prod.case)
qed

section \<open>xor\_memory\_region meets its specification\<close>

lemma unat_unaligned_tail: "unat (unaligned_tail b p) = p mod max_scalar_bytes b"
proof -
  obtain e where e: "max_scalar_bytes b = 2 ^ e" "e < 64"
  proof (cases b)
    case AVX2 with that [of 5] show ?thesis by simp
  next
    case SSE2 with that [of 4] show ?thesis by simp
  next
    case WORD64 with that [of 3] show ?thesis by simp
  next
    case WORD32 with that [of 2] show ?thesis by simp
  qed
  have "unat (unaligned_tail b p) = unat (take_bit e (of_nat p :: u64))"
    by (simp add: unaligned_tail_def max_scalar_align_mask_def e take_bit_eq_mask mask_eq_exp_minus_1)
  also have "\<dots> = take_bit e (unat (of_nat p :: u64))" by (rule unsigned_take_bit_eq)
  also have "\<dots> = p mod 2 ^ 64 mod 2 ^ e" by (simp only: unsigned_of_nat take_bit_eq_mod) simp
  also have "\<dots> = p mod 2 ^ e"
    using e(2) by (intro mod_mod_cancel le_imp_power_dvd) simp
  finally show ?thesis by (simp add: e)
qed

lemma unaligned_tail_0_aligned: "unaligned_tail b p = 0 \<Longrightarrow> aligned_for b p"
  using unat_unaligned_tail [of b p] by (auto simp: aligned_for_def)

lemma xor_memory_region_body_result:
  assumes ok: "xor_ok m d k (unat s)" and al: "aligned_for b d"
  shows "xor_memory_region_body b m d k s = Some (xor_range m d k (unat s))"
proof -
  have "unaligned_tail b k = 0 \<Longrightarrow> mask_ready (max_scalar_load_aligned b) b k"
    by (intro mask_ready_load_aligned unaligned_tail_0_aligned)
  then show ?thesis
    using assms by (simp add: xor_memory_region_body_def Let_def xor_memory_region_simple_result
      xor_memory_region_aligned_both_def xor_memory_region_aligned_dptr_def
      xor_aligned_with_result mask_ready_load)
qed

lemma xor_memory_region_result:
  assumes ok: "xor_ok m d k (unat s)"
  shows "xor_memory_region b m d k s = Some (xor_range m d k (unat s))"
proof -
  define tail where "tail = unaligned_tail b d"
  define cnt where "cnt = scalar_sz b - tail"
  have t: "unat tail = d mod max_scalar_bytes b" by (simp add: tail_def unat_unaligned_tail)
  then have c: "unat cnt = max_scalar_bytes b - d mod max_scalar_bytes b"
    by (simp add: cnt_def unat_sub_no_wrap order_less_imp_le)
  show ?thesis
  proof (cases "tail \<noteq> 0 \<and> \<not> s \<le> cnt")
    case False
    then show ?thesis
      using ok unaligned_tail_0_aligned [of b d]
      by (auto simp: xor_memory_region_def Let_def xor_memory_region_simple_result
          xor_memory_region_body_result simp flip: tail_def cnt_def)
  next
    case True
    then have le: "unat cnt \<le> unat s" by (simp add: word_le_nat_alt)
    have "d + unat cnt = max_scalar_bytes b * (d div max_scalar_bytes b) + max_scalar_bytes b"
      using mult_div_mod_eq [of "max_scalar_bytes b" d] mod_le_divisor [of "max_scalar_bytes b" d]
        max_scalar_bytes_pos [of b] unfolding c by linarith
    then have "(d + unat cnt) mod max_scalar_bytes b = 0" by simp
    then have al: "aligned_for b (d + unat cnt)" by (auto simp: aligned_for_def)
    have left: "unat (s - cnt) = unat s - unat cnt" using le by (rule unat_sub_no_wrap)
    have "xor_memory_region b m d k s =
        xor_memory_region_body b (xor_range m d k (unat cnt)) (d + unat cnt) (k + unat cnt) (s - cnt)"
      using True xor_memory_region_simple_result [OF xor_ok_prefix [OF ok le]]
      by (simp add: xor_memory_region_def Let_def flip: tail_def cnt_def)
    then show ?thesis
      using xor_memory_region_body_result [OF _ al] xor_ok_rest [OF ok le]
        xor_range_add [of d "unat cnt" "unat s - unat cnt" k m] ok le
      by (simp add: left xor_ok_def)
  qed
qed

section \<open>The contract of a XOR routine\<close>

text \<open>
  What a client of a XOR routine relies on.  The buffer calls \<open>xor_memory_region\<close>; the
  contract is stated once and holds of the simple routine as well.
\<close>

locale region_xor =
  fixes xr :: "memory \<Rightarrow> ptr \<Rightarrow> ptr \<Rightarrow> u64 \<Rightarrow> memory option"
  assumes xr_result: "xor_ok m d k (unat s) \<Longrightarrow> xr m d k s = Some (xor_range m d k (unat s))"
begin

text \<open>Recoding twice with the same mask gives the memory back.\<close>

lemma xr_involution:
  assumes "xor_ok m d k (unat s)"
  shows "do { m1 \<leftarrow> xr m d k s; xr m1 d k s } = Some m"
proof -
  have "xor_ok (xor_range m d k (unat s)) d k (unat s)" using assms by (simp add: xor_ok_def)
  moreover have "xor_range (xor_range m d k (unat s)) d k (unat s) = m"
  proof (rule memory_eqI)
    fix a
    have "\<not> (d \<le> k + (a - d) \<and> k + (a - d) < d + unat s)" if "d \<le> a" "a < d + unat s"
      using assms that unfolding xor_ok_def disjoint_ranges_def by linarith
    then show "byte_at (xor_range (xor_range m d k (unat s)) d k (unat s)) a = byte_at m a"
      by (auto simp: byte_at_xor_range xor.assoc)
  qed simp
  ultimately show ?thesis using assms by (simp add: xr_result)
qed

text \<open>Two calls on adjacent regions are one call on their union.\<close>

lemma xr_adjacent:
  assumes "xor_ok m d k (unat s + unat u)"
  shows "do { m1 \<leftarrow> xr m d k s; xr m1 (d + unat s) (k + unat s) u }
    = Some (xor_range m d k (unat s + unat u))"
  using xor_ok_prefix [OF assms, of "unat s"] xor_ok_rest [OF assms, of "unat s"]
    xor_range_add [of d "unat s" "unat u" k m] assms
  by (simp add: xr_result xor_ok_def)

end

interpretation simple_xor: region_xor "xor_memory_region_simple b" for b
  by unfold_locales (rule xor_memory_region_simple_result)

interpretation mem_xor: region_xor "xor_memory_region b" for b
  by unfold_locales (rule xor_memory_region_result)

section \<open>Properties\<close>



text \<open>C2: The optimised routine agrees with the plain byte loop of \<open>common.c\<close> in all four
  builds: vector width, alignment prologue and unrolling do not show in the result.\<close>

theorem xor_memory_region_equals_byte_loop:
  assumes "valid_range m dptr (unat sz)" and "valid_range m mptr (unat sz)"
    and "disjoint_ranges dptr (unat sz) mptr (unat sz)"
  shows "xor_memory_region b m dptr mptr sz = xor_byte_loop m dptr mptr sz"
  using xor_memory_region_result [of m dptr mptr sz b] xor_byte_loop_result [of m dptr mptr sz] assms
  by (simp add: xor_ok_def)

theorem xor_memory_region_equals_byte_loop_witness:
  "xor_memory_region SSE2 sample_memory 1001 2000 99 = xor_byte_loop sample_memory 1001 2000 99"
  by (rule xor_memory_region_equals_byte_loop) (simp_all add: disjoint_ranges_def)



end
