(* ===== verification/Ring.thy ===== *)
theory Ring
  imports Xor_Region
begin

text \<open>
  The circular view of a memory region: the bytes met when walking round the region from a
  start index, and the effect of writing round it.  The cyclic buffer and the cyclic queue
  both split a wrapping access into two linear ones; the lemmas here turn the two linear
  accesses into one access to the circular view.
\<close>

section \<open>Reading and writing round a region\<close>

definition ring_bytes :: "memory \<Rightarrow> ptr \<Rightarrow> nat \<Rightarrow> nat \<Rightarrow> nat \<Rightarrow> u8 list" where
  "ring_bytes m p t i n = map (\<lambda>j. byte_at m (p + (i + j) mod t)) [0..<n]"

definition ring_write :: "memory \<Rightarrow> ptr \<Rightarrow> nat \<Rightarrow> nat \<Rightarrow> u8 list \<Rightarrow> memory" where
  "ring_write m p t i bs = m\<lparr>byte_at := (\<lambda>a.
     if p \<le> a \<and> a < p + t \<and> (a - p + t - i) mod t < length bs
     then bs ! ((a - p + t - i) mod t) else byte_at m a)\<rparr>"

definition splice :: "'a list \<Rightarrow> nat \<Rightarrow> 'a list \<Rightarrow> 'a list" where
  "splice xs k ys = take k xs @ ys @ drop (k + length ys) xs"

lemma length_ring_bytes [simp]: "length (ring_bytes m p t i n) = n"
  by (simp add: ring_bytes_def)

lemma nth_ring_bytes [simp]:
  "j < n \<Longrightarrow> ring_bytes m p t i n ! j = byte_at m (p + (i + j) mod t)"
  by (simp add: ring_bytes_def)

lemma ring_bytes_0 [simp]: "ring_bytes m p t i 0 = []"
  by (simp add: ring_bytes_def)

lemma take_ring_bytes: "k \<le> n \<Longrightarrow> take k (ring_bytes m p t i n) = ring_bytes m p t i k"
  by (rule nth_equalityI) auto

lemma drop_ring_bytes:
  "drop k (ring_bytes m p t i n) = ring_bytes m p t ((i + k) mod t) (n - k)"
  by (rule nth_equalityI) (auto simp: mod_add_left_eq add.assoc)

lemma ring_bytes_add:
  "ring_bytes m p t i (a + b) = ring_bytes m p t i a @ ring_bytes m p t ((i + a) mod t) b"
  by (simp add: ring_bytes_def map_upt_add mod_add_left_eq add.assoc)

lemma ring_bytes_mod [simp]: "ring_bytes m p t (i mod t) n = ring_bytes m p t i n"
  by (simp add: ring_bytes_def mod_add_left_eq)

lemma ring_bytes_mod_add [simp]: "ring_bytes m p t (i mod t + k) n = ring_bytes m p t (i + k) n"
  using ring_bytes_mod [of m p t "i mod t + k" n] by (simp add: mod_add_left_eq)

lemma blocks_ring_write [simp]: "blocks (ring_write m p t i bs) = blocks m"
  by (simp add: ring_write_def)

lemma valid_range_ring_write [simp]: "valid_range (ring_write m p t i bs) = valid_range m"
  by (simp add: valid_range_def fun_eq_iff)

lemma byte_at_ring_write:
  "byte_at (ring_write m p t i bs) a =
     (if p \<le> a \<and> a < p + t \<and> (a - p + t - i) mod t < length bs
      then bs ! ((a - p + t - i) mod t) else byte_at m a)"
  by (simp add: ring_write_def)

lemma ring_write_Nil [simp]: "ring_write m p t i [] = m"
  by (simp add: ring_write_def)

lemma byte_at_ring_write_outside:
  "a < p \<or> p + t \<le> a \<Longrightarrow> byte_at (ring_write m p t i bs) a = byte_at m a"
  by (auto simp: byte_at_ring_write)

section \<open>Two linear accesses make a circular one\<close>

lemma ring_bytes_linear:
  assumes "i + n \<le> t"
  shows "ring_bytes m p t i n = read_bytes m (p + i) n"
  by (rule nth_equalityI) (use assms in \<open>auto simp: add.assoc\<close>)

lemma ring_bytes_wrap:
  assumes "i < t" and "t \<le> i + n" and "n \<le> t"
  shows "ring_bytes m p t i n = read_bytes m (p + i) (t - i) @ read_bytes m p (n - (t - i))"
proof -
  have "ring_bytes m p t i (t - i + (n - (t - i))) =
      ring_bytes m p t i (t - i) @ ring_bytes m p t 0 (n - (t - i))"
    using assms by (simp only: ring_bytes_add) simp
  then show ?thesis using assms by (simp add: ring_bytes_linear)
qed

lemma offset_cases:
  assumes "i < t" and "x < (t::nat)"
  shows "(x + t - i) mod t = (if i \<le> x then x - i else x + t - i)"
  using assms by (auto simp: mod_if)

lemma ring_write_linear:
  assumes "i + length bs \<le> t" and "i < t"
  shows "write_bytes m (p + i) bs = ring_write m p t i bs"
proof (rule memory_eqI)
  fix a
  show "byte_at (write_bytes m (p + i) bs) a = byte_at (ring_write m p t i bs) a"
  proof (cases "p \<le> a \<and> a < p + t")
    case True
    then obtain x where x: "a = p + x" "x < t" by (metis le_add_diff_inverse nat_add_left_cancel_less)
    have "byte_at (write_bytes m (p + i) bs) a =
        (if i \<le> x \<and> x - i < length bs then bs ! (x - i) else byte_at m a)"
      by (auto simp: x byte_at_write_bytes)
    then show ?thesis
      using assms offset_cases [OF assms(2) x(2)] by (auto simp: x byte_at_ring_write)
  next
    case False
    then show ?thesis using assms by (auto simp: byte_at_write_bytes byte_at_ring_write)
  qed
qed simp

lemma ring_write_wrap:
  assumes "i < t" and "t \<le> i + length bs" and "length bs \<le> t"
  shows "write_bytes (write_bytes m (p + i) (take (t - i) bs)) p (drop (t - i) bs)
    = ring_write m p t i bs"
proof (rule memory_eqI)
  fix a
  show "byte_at (write_bytes (write_bytes m (p + i) (take (t - i) bs)) p (drop (t - i) bs)) a
      = byte_at (ring_write m p t i bs) a"
  proof (cases "p \<le> a \<and> a < p + t")
    case True
    then obtain x where x: "a = p + x" "x < t" by (metis le_add_diff_inverse nat_add_left_cancel_less)
    show ?thesis
    proof (cases "i \<le> x")
      case True
      then have "x - i < t - i" "x - i < length bs" "\<not> x < length bs - (t - i)"
        using x assms by auto
      then show ?thesis
        using True x assms offset_cases [of i t x] by (auto simp: byte_at_write_bytes byte_at_ring_write)
    next
      case False
      then show ?thesis
        using x assms offset_cases [of i t x]
        by (auto simp: byte_at_write_bytes byte_at_ring_write less_diff_conv add.commute)
    qed
  next
    case False
    then show ?thesis using assms by (auto simp: byte_at_write_bytes byte_at_ring_write)
  qed
qed simp

section \<open>The view from a base index\<close>

lemma take_splice_le: "n \<le> k \<Longrightarrow> k \<le> length xs \<Longrightarrow> take n (splice xs k ys) = take n xs"
  by (simp add: splice_def min.absorb1)

lemma take_splice: "k \<le> length xs \<Longrightarrow> take (k + length ys) (splice xs k ys) = take k xs @ ys"
  by (simp add: splice_def)

lemma drop_splice:
  "k \<le> length xs \<Longrightarrow> drop (k + length ys) (splice xs k ys) = drop (k + length ys) xs"
  by (simp add: splice_def)

lemma view_offset:
  assumes "r < t" and "j < t" and "k < (t::nat)"
  shows "((r + j) mod t + t - (r + k) mod t) mod t = (if k \<le> j then j - k else j + t - k)"
  using assms by (auto simp: mod_if)

lemma ring_view_write:
  assumes r: "r < t" and k: "k + length bs \<le> t"
  shows "ring_bytes (ring_write m p t ((r + k) mod t) bs) p t r t
    = splice (ring_bytes m p t r t) k bs"
proof (rule nth_equalityI)
  show "length (ring_bytes (ring_write m p t ((r + k) mod t) bs) p t r t)
      = length (splice (ring_bytes m p t r t) k bs)"
    using k by (simp add: splice_def)
  fix j assume "j < length (ring_bytes (ring_write m p t ((r + k) mod t) bs) p t r t)"
  then have j: "j < t" by simp
  then have x: "(r + j) mod t < t" by simp
  show "ring_bytes (ring_write m p t ((r + k) mod t) bs) p t r t ! j
      = splice (ring_bytes m p t r t) k bs ! j"
  proof (cases "k < t")
    case True
    then show ?thesis
      using view_offset [OF r j True] x j k
      by (auto simp: splice_def byte_at_ring_write nth_append)
  next
    case False
    then show ?thesis
      using x j k by (auto simp: splice_def byte_at_ring_write nth_append)
  qed
qed

lemma ring_bytes_write_outside:
  assumes "disjoint_ranges d (length bs) p t" and "0 < t"
  shows "ring_bytes (write_bytes m d bs) p t i n = ring_bytes m p t i n"
proof (rule nth_equalityI)
  fix j assume "j < length (ring_bytes (write_bytes m d bs) p t i n)"
  then show "ring_bytes (write_bytes m d bs) p t i n ! j = ring_bytes m p t i n ! j"
    using disjoint_rangesD [OF assms(1), of "p + (i + j) mod t"] assms(2)
    by (auto simp: byte_at_write_bytes)
qed simp

lemma ring_bytes_write_later:
  assumes i: "i < t" and k: "length bs \<le> k" "k + n \<le> t"
  shows "ring_bytes (ring_write m p t i bs) p t ((i + k) mod t) n = ring_bytes m p t ((i + k) mod t) n"
proof (rule nth_equalityI)
  fix j assume "j < length (ring_bytes (ring_write m p t i bs) p t ((i + k) mod t) n)"
  then have "j < n" by simp
  then show "ring_bytes (ring_write m p t i bs) p t ((i + k) mod t) n ! j
      = ring_bytes m p t ((i + k) mod t) n ! j"
    using mod_offset [of i t "k + j"] assms
    by (simp add: byte_at_ring_write mod_add_left_eq add.assoc)
qed simp

lemma ring_write_append:
  assumes i: "i < t" and len: "length xs + length ys \<le> t"
  shows "ring_write (ring_write m p t i xs) p t ((i + length xs) mod t) ys = ring_write m p t i (xs @ ys)"
proof (rule memory_eqI)
  fix a
  show "byte_at (ring_write (ring_write m p t i xs) p t ((i + length xs) mod t) ys) a
      = byte_at (ring_write m p t i (xs @ ys)) a"
  proof (cases "p \<le> a \<and> a < p + t")
    case True
    then obtain x where x: "a = p + x" "x < t" by (metis le_add_diff_inverse nat_add_left_cancel_less)
    obtain j where j: "j < t" "x = (i + j) mod t"
      using x(2) i mod_offset_inv [OF i x(2)] by (metis mod_less_divisor gr_implies_not_zero neq0_conv)
    note off = mod_offset [OF i j(1)]
    show ?thesis
    proof (cases "ys = []")
      case False
      then have "length xs < t" using len by (cases ys) auto
      then have "(x + t - (i + length xs) mod t) mod t =
          (if length xs \<le> j then j - length xs else j + t - length xs)"
        using view_offset [OF i j(1)] by (simp add: j(2))
      then show ?thesis
        using x(1) len j(1) mod_less_divisor [of t "i + j"] by (auto simp: j(2) off byte_at_ring_write nth_append)
    qed (simp add: byte_at_ring_write)
  next
    case False
    then show ?thesis by (auto simp: byte_at_ring_write)
  qed
qed simp

section \<open>Copies and XOR round the ring\<close>

text \<open>
  The circular region \<open>p\<close>, \<open>t\<close> is allocated and does not meet the linear region \<open>q\<close>, \<open>n\<close>
  that is copied to it, copied from it or used as its mask.
\<close>

definition ring_ok :: "memory \<Rightarrow> ptr \<Rightarrow> nat \<Rightarrow> ptr \<Rightarrow> nat \<Rightarrow> bool" where
  "ring_ok m p t q n \<longleftrightarrow>
     valid_range m p t \<and> valid_range m q n \<and> disjoint_ranges q n p t \<and> n \<le> t"

lemma ring_ok_parts:
  assumes "ring_ok m p t q n" and "i + k \<le> t" and "j + k \<le> n"
  shows "valid_range m (p + i) k" and "valid_range m (q + j) k"
    and "disjoint_ranges (q + j) k (p + i) k" and "disjoint_ranges (p + i) k (q + j) k"
  using assms by (auto simp: ring_ok_def disjoint_ranges_def intro: valid_range_sub)

lemma ring_ok_part0:
  assumes "ring_ok m p t q n" and "k \<le> t" and "j + k \<le> n"
  shows "valid_range m p k" and "valid_range m (q + j) k"
    and "disjoint_ranges (q + j) k p k" and "disjoint_ranges p k (q + j) k"
  using ring_ok_parts [of m p t q n 0 k j] assms by simp_all

lemma ring_ok_write_bytes [simp]: "ring_ok (write_bytes m a bs) p t q n = ring_ok m p t q n"
  by (simp add: ring_ok_def)

lemma memcpy_out_linear:
  assumes "ring_ok m p t q n" and "i + n \<le> t"
  shows "memcpy m q (p + i) n = Some (write_bytes m q (ring_bytes m p t i n))"
  using ring_ok_parts [OF assms(1,2), of 0] by (simp add: mem_simps ring_bytes_linear [OF assms(2)])

lemma memcpy_out_wrap:
  assumes ok: "ring_ok m p t q n" and i: "i < t" "t \<le> i + n"
  shows "do { m1 \<leftarrow> memcpy m q (p + i) (t - i); memcpy m1 (q + (t - i)) p (n - (t - i)) }
    = Some (write_bytes m q (ring_bytes m p t i n))"
proof -
  have n: "n \<le> t" using ok by (simp add: ring_ok_def)
  let ?a = "read_bytes m (p + i) (t - i)"
  have 1: "memcpy m q (p + i) (t - i) = Some (write_bytes m q ?a)"
    using ring_ok_parts [OF ok, of i "t - i" 0] i by (simp add: mem_simps)
  have keep: "read_bytes (write_bytes m q ?a) p (n - (t - i)) = read_bytes m p (n - (t - i))"
    using ok i n by (intro read_bytes_write_bytes_disjoint) (auto simp: ring_ok_def disjoint_ranges_def)
  have "memcpy (write_bytes m q ?a) (q + (t - i)) p (n - (t - i)) =
      Some (write_bytes (write_bytes m q ?a) (q + (t - i)) (read_bytes m p (n - (t - i))))"
    using ring_ok_part0 [OF ok, of "n - (t - i)" "t - i"] i n keep by (simp add: mem_simps)
  then show ?thesis
    using write_bytes_append [of m q ?a "read_bytes m p (n - (t - i))"]
    by (simp add: 1 ring_bytes_wrap [OF i n])
qed

lemma memcpy_in_linear:
  assumes "ring_ok m p t q n" and "i + n \<le> t" and "i < t"
  shows "memcpy m (p + i) q n = Some (ring_write m p t i (read_bytes m q n))"
  using ring_ok_parts [OF assms(1,2), of 0] assms(2,3) by (simp add: mem_simps ring_write_linear)

lemma memcpy_in_wrap:
  assumes ok: "ring_ok m p t q n" and i: "i < t" "t \<le> i + n"
  shows "do { m1 \<leftarrow> memcpy m (p + i) q (t - i); memcpy m1 p (q + (t - i)) (n - (t - i)) }
    = Some (ring_write m p t i (read_bytes m q n))"
proof -
  have n: "n \<le> t" using ok by (simp add: ring_ok_def)
  let ?a = "read_bytes m q (t - i)" and ?b = "read_bytes m (q + (t - i)) (n - (t - i))"
  have 1: "memcpy m (p + i) q (t - i) = Some (write_bytes m (p + i) ?a)"
    using ring_ok_parts [OF ok, of i "t - i" 0] i by (simp add: mem_simps)
  have keep: "read_bytes (write_bytes m (p + i) ?a) (q + (t - i)) (n - (t - i)) = ?b"
    using ok i n by (intro read_bytes_write_bytes_disjoint) (auto simp: ring_ok_def disjoint_ranges_def)
  have "memcpy (write_bytes m (p + i) ?a) p (q + (t - i)) (n - (t - i)) =
      Some (write_bytes (write_bytes m (p + i) ?a) p ?b)"
    using ring_ok_part0 [OF ok, of "n - (t - i)" "t - i"] i n keep by (simp add: mem_simps)
  moreover have "?a = take (t - i) (read_bytes m q n)" "?b = drop (t - i) (read_bytes m q n)"
    using i by (simp_all add: take_read_bytes drop_read_bytes)
  ultimately show ?thesis
    using ring_write_wrap [of i t "read_bytes m q n" m p] i n by (simp add: 1)
qed

context region_xor
begin

lemma xr_linear:
  assumes "ring_ok m p t q (unat s)" and "i + unat s \<le> t" and "i < t"
  shows "xr m (p + i) q s
    = Some (ring_write m p t i (map2 (XOR) (ring_bytes m p t i (unat s)) (read_bytes m q (unat s))))"
proof -
  have "xor_ok m (p + i) q (unat s)"
    using ring_ok_parts [OF assms(1,2), of 0] by (simp add: xor_ok_def)
  then show ?thesis
    using assms(2,3) by (simp add: xr_result xor_range_def ring_write_linear ring_bytes_linear)
qed

lemma xr_wrap:
  assumes ok: "ring_ok m p t q n" and i: "i < t" "t \<le> i + n"
    and s: "unat s = t - i" and u: "unat u = n - (t - i)"
  shows "do { m1 \<leftarrow> xr m (p + i) q s; xr m1 p (q + (t - i)) u }
    = Some (ring_write m p t i (map2 (XOR) (ring_bytes m p t i n) (read_bytes m q n)))"
proof -
  have n: "n \<le> t" using ok by (simp add: ring_ok_def)
  define x where "x = map2 (XOR) (ring_bytes m p t i n) (read_bytes m q n)"
  define a where "a = map2 (XOR) (read_bytes m (p + i) (t - i)) (read_bytes m q (t - i))"
  define b where "b = map2 (XOR) (read_bytes m p (n - (t - i))) (read_bytes m (q + (t - i)) (n - (t - i)))"
  have "read_bytes m q n = read_bytes m q (t - i) @ read_bytes m (q + (t - i)) (n - (t - i))"
    using read_bytes_add [of m q "t - i" "n - (t - i)"] i by simp
  then have ab: "x = a @ b"
    by (simp add: x_def a_def b_def ring_bytes_wrap [OF i n] map2_append)
  have la: "length a = t - i" and lb: "length b = n - (t - i)" by (simp_all add: a_def b_def)
  have "xor_ok m (p + i) q (t - i)"
    using ring_ok_parts [OF ok, of i "t - i" 0] i by (simp add: xor_ok_def)
  then have 1: "xr m (p + i) q s = Some (write_bytes m (p + i) a)"
    by (simp add: xr_result s xor_range_def a_def)
  have "xor_ok (write_bytes m (p + i) a) p (q + (t - i)) (n - (t - i))"
    using ring_ok_part0 [OF ok, of "n - (t - i)" "t - i"] i n by (simp add: xor_ok_def)
  moreover have "read_bytes (write_bytes m (p + i) a) p (n - (t - i)) = read_bytes m p (n - (t - i))"
    "read_bytes (write_bytes m (p + i) a) (q + (t - i)) (n - (t - i)) = read_bytes m (q + (t - i)) (n - (t - i))"
    using ok i n la by (auto intro!: read_bytes_write_bytes_disjoint simp: ring_ok_def disjoint_ranges_def)
  ultimately have 2: "xr (write_bytes m (p + i) a) p (q + (t - i)) u =
      Some (write_bytes (write_bytes m (p + i) a) p b)"
    by (simp add: xr_result u xor_range_def b_def)
  have "take (t - i) x = a" "drop (t - i) x = b" "length x = n"
    using ab la lb i n by auto
  then show ?thesis
    using ring_write_wrap [of i t x m p] i n 1 2 by (simp flip: x_def)
qed

end

section \<open>Rings of fixed-size slots\<close>

text \<open>A region of \<open>cap\<close> slots of \<open>es\<close> bytes; \<open>slots m p es cap t n\<close> are the \<open>n\<close> slots met from
  slot \<open>t\<close> on.\<close>

definition slot :: "memory \<Rightarrow> ptr \<Rightarrow> nat \<Rightarrow> nat \<Rightarrow> u8 list" where
  "slot m p es i = read_bytes m (p + i * es) es"

definition slots :: "memory \<Rightarrow> ptr \<Rightarrow> nat \<Rightarrow> nat \<Rightarrow> nat \<Rightarrow> nat \<Rightarrow> u8 list list" where
  "slots m p es cap t n = map (\<lambda>j. slot m p es ((t + j) mod cap)) [0..<n]"

lemma length_slots [simp]: "length (slots m p es cap t n) = n"
  by (simp add: slots_def)

lemma slots_0 [simp]: "slots m p es cap t 0 = []"
  by (simp add: slots_def)

lemma slots_Suc: "slots m p es cap t (Suc n) = slots m p es cap t n @ [slot m p es ((t + n) mod cap)]"
  by (simp add: slots_def)

lemma slots_Cons:
  "t < cap \<Longrightarrow> slots m p es cap t (Suc n) = slot m p es t # slots m p es cap ((t + 1) mod cap) n"
proof -
  assume t: "t < cap"
  have "[0..<Suc n] = 0 # map Suc [0..<n]" by (simp add: upt_conv_Cons map_Suc_upt del: upt_Suc)
  then show ?thesis using t by (simp add: slots_def mod_simps del: upt_Suc)
qed

lemma slot_bounds:
  "i < cap \<Longrightarrow> p \<le> p + i * es \<and> p + i * es + es \<le> p + cap * es" for i cap es p :: nat
proof -
  assume "i < cap"
  then have "Suc i * es \<le> cap * es" by (intro mult_le_mono1) simp
  then show ?thesis by simp
qed

lemma slots_differ:
  assumes "i \<noteq> (j::nat)"
  shows "disjoint_ranges (p + i * es) es (p + j * es) es"
proof (cases "i < j")
  case True
  then have "Suc i * es \<le> j * es" by (intro mult_le_mono1) simp
  then show ?thesis by (simp add: disjoint_ranges_def)
next
  case False
  then have "Suc j * es \<le> i * es" using assms by (intro mult_le_mono1) simp
  then show ?thesis by (simp add: disjoint_ranges_def)
qed

lemma slot_write_same [simp]:
  "length bs = es \<Longrightarrow> slot (write_bytes m (p + i * es) bs) p es i = bs"
  by (simp add: slot_def)

lemma slot_write_other:
  "i \<noteq> j \<Longrightarrow> length bs = es \<Longrightarrow> slot (write_bytes m (p + i * es) bs) p es j = slot m p es j"
  using slots_differ [of i j p es] by (simp add: slot_def read_bytes_write_bytes_disjoint)

lemma slot_write_outside:
  assumes "disjoint_ranges q (length bs) p (cap * es)" and "j < cap"
  shows "slot (write_bytes m q bs) p es j = slot m p es j"
proof -
  have "disjoint_ranges q (length bs) (p + j * es) es"
    using assms(1) slot_bounds [OF assms(2), of p es] by (auto simp: disjoint_ranges_def)
  then show ?thesis by (simp add: slot_def read_bytes_write_bytes_disjoint)
qed

lemma slots_write_outside:
  "disjoint_ranges q (length bs) p (cap * es) \<Longrightarrow> 0 < cap \<Longrightarrow>
   slots (write_bytes m q bs) p es cap t n = slots m p es cap t n"
  by (simp add: slots_def slot_write_outside)

lemma slots_write_free:
  assumes "n < cap" and "t < cap" and "length bs = es"
  shows "slots (write_bytes m (p + ((t + n) mod cap) * es) bs) p es cap t n = slots m p es cap t n"
proof (rule nth_equalityI)
  fix j assume "j < length (slots (write_bytes m (p + ((t + n) mod cap) * es) bs) p es cap t n)"
  then have "j < n" by simp
  then have "(t + n) mod cap \<noteq> (t + j) mod cap" using mod_add_inj [of t n cap j] assms(1) by auto
  then show "slots (write_bytes m (p + ((t + n) mod cap) * es) bs) p es cap t n ! j = slots m p es cap t n ! j"
    using assms(3) \<open>j < n\<close> by (simp add: slots_def slot_write_other)
qed simp

lemma slots_push:
  assumes "n < cap" and "t < cap" and "length bs = es"
  shows "slots (write_bytes m (p + ((t + n) mod cap) * es) bs) p es cap t (Suc n) = slots m p es cap t n @ [bs]"
  using slots_write_free [OF assms] assms(3) by (simp add: slots_Suc)

text \<open>A byte of a slot, in the circular byte view of the region.\<close>

lemma slot_byte_index:
  assumes "k < es" and "0 < (cap::nat)"
  shows "(a * es + k) mod (cap * es) = (a mod cap) * es + k"
proof -
  have "(a * es + k) mod (es * cap) = es * ((a * es + k) div es mod cap) + (a * es + k) mod es"
    by (rule mod_mult2_eq)
  moreover have "(a * es + k) div es = a" "(a * es + k) mod es = k" using assms by simp_all
  ultimately show ?thesis by (simp add: mult.commute)
qed

text \<open>Copying the circular byte view to a linear region keeps the slots in order.\<close>

lemma slots_of_copy:
  assumes cap: "0 < cap" and n: "n \<le> cap'" and q: "byte_at m' = byte_at (write_bytes m q (ring_bytes m p (cap * es) (t * es) (n * es)))"
  shows "slots m' q es cap' 0 n = slots m p es cap t n"
proof (rule nth_equalityI)
  fix j assume "j < length (slots m' q es cap' 0 n)"
  then have j: "j < n" by simp
  show "slots m' q es cap' 0 n ! j = slots m p es cap t n ! j"
  proof (rule nth_equalityI)
    fix k assume "k < length (slots m' q es cap' 0 n ! j)"
    then have k: "k < es" using j by (simp add: slots_def slot_def)
    have "Suc j * es \<le> n * es" using j by (intro mult_le_mono1) simp
    then have jk: "j * es + k < n * es" using k by simp
    have "byte_at m' (q + (j * es + k)) = byte_at m (p + (t * es + (j * es + k)) mod (cap * es))"
      using jk by (simp add: q byte_at_write_bytes)
    also have "(t * es + (j * es + k)) mod (cap * es) = ((t + j) mod cap) * es + k"
      using slot_byte_index [OF k cap, of "t + j"] by (simp add: algebra_simps)
    finally show "slots m' q es cap' 0 n ! j ! k = slots m p es cap t n ! j ! k"
      using j k n by (simp add: slots_def slot_def add.assoc)
  qed (use j in \<open>simp add: slots_def slot_def\<close>)
qed simp

end
