(* ===== verification/Xor_Pipe.thy ===== *)
theory Xor_Pipe
  imports Prelude
begin

text \<open>
  The contract of a three-stage byte pipe: a writer appends raw bytes, a recoder XORs raw
  bytes with a mask and makes them readable, a reader takes readable bytes.  The contract
  is a locale over step relations; what a whole run of the pipe delivers is proved once
  from it.  The cyclic buffer interprets the locale.
\<close>

text \<open>
  A run records the bytes accepted from the writer, the mask bytes used by the recoder and
  the bytes handed to the reader.  \<open>env\<close> are the steps of the rest of the program.
\<close>

inductive pipe_run ::
    "('s \<Rightarrow> u8 list \<Rightarrow> 's \<Rightarrow> bool) \<Rightarrow> ('s \<Rightarrow> u8 list \<Rightarrow> 's \<Rightarrow> bool) \<Rightarrow> ('s \<Rightarrow> u8 list \<Rightarrow> 's \<Rightarrow> bool)
      \<Rightarrow> ('s \<Rightarrow> 's \<Rightarrow> bool) \<Rightarrow> 's \<Rightarrow> 's \<Rightarrow> u8 list \<Rightarrow> u8 list \<Rightarrow> u8 list \<Rightarrow> bool"
  for wr rc rd env s0 where
  run_start: "pipe_run wr rc rd env s0 s0 [] [] []"
| run_write: "pipe_run wr rc rd env s0 s ws ks outs \<Longrightarrow> wr s bs s' \<Longrightarrow>
    pipe_run wr rc rd env s0 s' (ws @ bs) ks outs"
| run_recode: "pipe_run wr rc rd env s0 s ws ks outs \<Longrightarrow> rc s bs s' \<Longrightarrow>
    pipe_run wr rc rd env s0 s' ws (ks @ bs) outs"
| run_read: "pipe_run wr rc rd env s0 s ws ks outs \<Longrightarrow> rd s bs s' \<Longrightarrow>
    pipe_run wr rc rd env s0 s' ws ks (outs @ bs)"
| run_env: "pipe_run wr rc rd env s0 s ws ks outs \<Longrightarrow> env s s' \<Longrightarrow>
    pipe_run wr rc rd env s0 s' ws ks outs"

lemma map2_xor_prefix:
  "length ks \<le> length ws \<Longrightarrow> length xs \<le> length ws - length ks \<Longrightarrow>
   map2 (XOR) ws (ks @ xs) = map2 (XOR) ws ks @ map2 (XOR) (take (length xs) (drop (length ks) ws)) xs"
  for ws ks xs :: "u8 list"
proof -
  assume a: "length ks \<le> length ws" "length xs \<le> length ws - length ks"
  define us vs zs where "us = take (length ks) ws" and "vs = take (length xs) (drop (length ks) ws)"
    and "zs = drop (length xs) (drop (length ks) ws)"
  have ws: "ws = us @ vs @ zs" unfolding us_def vs_def zs_def by (simp only: append_take_drop_id)
  have len: "length us = length ks" "length vs = length xs" using a by (simp_all add: us_def vs_def)
  have "zip (us @ vs @ zs) (ks @ xs @ []) = zip us ks @ zip vs xs" "zip (us @ vs @ zs) (ks @ []) = zip us ks"
    using len by (simp_all only: zip_append) simp_all
  then show ?thesis by (simp add: ws len flip: vs_def)
qed

locale xor_pipe =
  fixes inv :: "'s \<Rightarrow> bool"
    and rdy :: "'s \<Rightarrow> u8 list"
    and rw :: "'s \<Rightarrow> u8 list"
    and wr :: "'s \<Rightarrow> u8 list \<Rightarrow> 's \<Rightarrow> bool"
    and rc :: "'s \<Rightarrow> u8 list \<Rightarrow> 's \<Rightarrow> bool"
    and rd :: "'s \<Rightarrow> u8 list \<Rightarrow> 's \<Rightarrow> bool"
    and env :: "'s \<Rightarrow> 's \<Rightarrow> bool"
  assumes write_law: "inv s \<Longrightarrow> wr s bs s' \<Longrightarrow> inv s' \<and> rdy s' = rdy s \<and> rw s' = rw s @ bs"
    and recode_law: "inv s \<Longrightarrow> rc s bs s' \<Longrightarrow>
      inv s' \<and> length bs \<le> length (rw s) \<and>
      rdy s' = rdy s @ map2 (XOR) (take (length bs) (rw s)) bs \<and> rw s' = drop (length bs) (rw s)"
    and read_law: "inv s \<Longrightarrow> rd s bs s' \<Longrightarrow> inv s' \<and> rw s' = rw s \<and> rdy s = bs @ rdy s'"
    and env_law: "inv s \<Longrightarrow> env s s' \<Longrightarrow> inv s' \<and> rdy s' = rdy s \<and> rw s' = rw s"
begin

text \<open>
  Nothing is lost, duplicated or reordered: at every point of a run that started with an
  empty pipe, the bytes read so far followed by the readable bytes are the written bytes
  XORed with the mask bytes, position by position, and the raw bytes are the rest of what
  was written.
\<close>

lemma run_stream:
  assumes run: "pipe_run wr rc rd env s0 s ws ks outs"
    and start: "inv s0" "rdy s0 = []" "rw s0 = []"
  shows "inv s \<and> length ks \<le> length ws \<and> outs @ rdy s = map2 (XOR) ws ks \<and> rw s = drop (length ks) ws"
  using run
proof (induction rule: pipe_run.induct)
  case run_start
  then show ?case using start by simp
next
  case (run_write s ws ks outs bs s')
  then have "map2 (XOR) (ws @ bs) ks = map2 (XOR) ws ks" by (simp add: zip_append1)
  then show ?case using run_write write_law [of s bs s'] by auto
next
  case (run_recode s ws ks outs bs s')
  then show ?case
    using recode_law [of s bs s'] map2_xor_prefix [of ks ws bs] by (auto simp: drop_drop add.commute)
next
  case (run_read s ws ks outs bs s')
  then show ?case using read_law [of s bs s'] by auto
next
  case (run_env s ws ks outs s')
  then show ?case using env_law [of s s'] by auto
qed

text \<open>XORing the bytes read with the mask again gives back the bytes written.\<close>

lemma run_decodes:
  assumes run: "pipe_run wr rc rd env s0 s ws ks outs"
    and start: "inv s0" "rdy s0 = []" "rw s0 = []"
  shows "map2 (XOR) outs ks = take (length outs) ws"
proof -
  have r: "length ks \<le> length ws" "outs @ rdy s = map2 (XOR) ws ks"
    using run_stream [OF assms] by auto
  then have len: "length outs \<le> length ks" by (metis length_append length_map length_zip le_add1 min.absorb2)
  have "map2 (XOR) outs ks ! i = ws ! i" if "i < length outs" for i
  proof -
    have "outs ! i = ws ! i XOR ks ! i"
    proof -
      have "outs ! i = (outs @ rdy s) ! i" using that by (simp add: nth_append)
      also have "\<dots> = map2 (XOR) ws ks ! i" using r(2) by simp
      also have "\<dots> = ws ! i XOR ks ! i" using that len r(1) by simp
      finally show ?thesis .
    qed
    then show ?thesis using that len by (simp add: xor.assoc)
  qed
  then show ?thesis using len r(1) by (intro nth_equalityI) auto
qed

end

end
