(* ===== verification/Cyclic_Buffer.thy ===== *)
theory Cyclic_Buffer
  imports Ring Xor_Pipe
begin

text \<open>
  The cyclic byte buffer of \<open>src/cyclic_buffer.c\<close>: one data block, three indices that chase
  each other round it (write, recode, read) and three counters of the bytes each stage may
  take.  The operations are translated with their 32-bit arithmetic; the buffer struct is a
  record passed and returned, the bytes live in the memory.  Each operation is shown to
  refine an operation on a pipe: the list of bytes ready to be read, the list of raw bytes
  not yet recoded, and the free room.
\<close>

section \<open>The struct and its life cycle\<close>

record cyclic_buffer =
  data_ptr :: ptr
  total_size :: u32
  read_idx :: u32
  write_idx :: u32
  recode_idx :: u32
  available_to_read :: u32
  available_to_write :: u32
  available_to_recode :: u32

definition CYCLIC_BUFFER_CHUNK_SIZE :: int where
  "CYCLIC_BUFFER_CHUNK_SIZE = 0x1000"

definition CYCLIC_BUFFER_MAX_SIZE :: u32 where
  "CYCLIC_BUFFER_MAX_SIZE = 0x40000000"

text \<open>\<open>memset(buf, 0, sizeof(cyclic_buffer_t))\<close>.\<close>

definition zero_buffer :: cyclic_buffer where
  "zero_buffer = \<lparr>data_ptr = NULL, total_size = 0, read_idx = 0, write_idx = 0, recode_idx = 0,
     available_to_read = 0, available_to_write = 0, available_to_recode = 0\<rparr>"

text \<open>\<open>chunks\<close> is a C \<open>int\<close>; the product with the chunk size is computed at type \<open>int\<close>.\<close>

definition cyclic_buffer_init ::
    "allocator \<Rightarrow> memory \<Rightarrow> int \<Rightarrow> (memory \<times> cyclic_buffer \<times> bool) option" where
  "cyclic_buffer_init al m chunks =
     (let buf = zero_buffer in
      if chunks \<le> 0 then Some (m, buf, False)
      else do {
        total \<leftarrow> c_int_mul CYCLIC_BUFFER_CHUNK_SIZE chunks;
        let buf = buf\<lparr>total_size := of_int total\<rparr>;
        if total_size buf > CYCLIC_BUFFER_MAX_SIZE then Some (m, buf, False)
        else
          let (p, m) = malloc al m (unat (total_size buf)) in
          if p = NULL then Some (m, buf, False)
          else Some (m, buf\<lparr>data_ptr := p, available_to_write := total_size buf\<rparr>, True)
      })"

definition cyclic_buffer_destroy :: "memory \<Rightarrow> cyclic_buffer \<Rightarrow> (memory \<times> cyclic_buffer) option" where
  "cyclic_buffer_destroy m buf = do {
     m \<leftarrow> (if data_ptr buf \<noteq> NULL then free m (data_ptr buf) else Some m);
     Some (m, zero_buffer)
   }"

section \<open>The operations\<close>

definition cyclic_buffer_read ::
    "memory \<Rightarrow> cyclic_buffer \<Rightarrow> ptr \<Rightarrow> u32 \<Rightarrow> (memory \<times> cyclic_buffer \<times> u32) option" where
  "cyclic_buffer_read m buf dest mx =
     (let avail = available_to_read buf in
      if avail = 0 then Some (m, buf, 0)
      else
        let sz = min avail mx;
            next_read_idx = read_idx buf + sz
        in do {
          (m, next_read_idx) \<leftarrow>
            (if next_read_idx > total_size buf then
               let size_till_end = total_size buf - read_idx buf;
                   next_read_idx = sz - size_till_end
               in do {
                 m \<leftarrow> (if dest \<noteq> NULL then do {
                        m \<leftarrow> memcpy m dest (data_ptr buf + unat (read_idx buf)) (unat size_till_end);
                        memcpy m (dest + unat size_till_end) (data_ptr buf) (unat next_read_idx)
                      } else Some m);
                 Some (m, next_read_idx)
               }
             else do {
               m \<leftarrow> (if dest \<noteq> NULL
                     then memcpy m dest (data_ptr buf + unat (read_idx buf)) (unat sz)
                     else Some m);
               next_read_idx \<leftarrow> c_mod next_read_idx (total_size buf);
               Some (m, next_read_idx)
             });
          Some (m, buf\<lparr>read_idx := next_read_idx,
                       available_to_write := available_to_write buf + sz,
                       available_to_read := available_to_read buf - sz\<rparr>, sz)
        })"

definition cyclic_buffer_write ::
    "memory \<Rightarrow> cyclic_buffer \<Rightarrow> ptr \<Rightarrow> u32 \<Rightarrow> (memory \<times> cyclic_buffer \<times> u32) option" where
  "cyclic_buffer_write m buf src mx =
     (let avail = available_to_write buf in
      if avail = 0 then Some (m, buf, 0)
      else
        let sz = min avail mx;
            next_write_idx = write_idx buf + sz
        in do {
          (m, next_write_idx) \<leftarrow>
            (if next_write_idx > total_size buf then
               let size_till_end = total_size buf - write_idx buf;
                   next_write_idx = sz - size_till_end
               in do {
                 m \<leftarrow> (if src \<noteq> NULL then do {
                        m \<leftarrow> memcpy m (data_ptr buf + unat (write_idx buf)) src (unat size_till_end);
                        memcpy m (data_ptr buf) (src + unat size_till_end) (unat next_write_idx)
                      } else Some m);
                 Some (m, next_write_idx)
               }
             else do {
               m \<leftarrow> (if src \<noteq> NULL
                     then memcpy m (data_ptr buf + unat (write_idx buf)) src (unat sz)
                     else Some m);
               next_write_idx \<leftarrow> c_mod next_write_idx (total_size buf);
               Some (m, next_write_idx)
             });
          Some (m, buf\<lparr>write_idx := next_write_idx,
                       available_to_recode := available_to_recode buf + sz,
                       available_to_write := available_to_write buf - sz\<rparr>, sz)
        })"

definition cyclic_buffer_recode_none :: "cyclic_buffer \<Rightarrow> (cyclic_buffer \<times> u32) option" where
  "cyclic_buffer_recode_none buf =
     (let sz = available_to_recode buf in do {
        next_recode_idx \<leftarrow> c_mod (recode_idx buf + sz) (total_size buf);
        Some (buf\<lparr>recode_idx := next_recode_idx,
                  available_to_read := available_to_read buf + sz,
                  available_to_recode := 0\<rparr>, sz)
      })"

text \<open>The sizes are passed on to \<open>xor_memory_region\<close> at type \<open>size_t\<close>.\<close>

definition cyclic_buffer_recode_xor ::
    "scalar_build \<Rightarrow> memory \<Rightarrow> cyclic_buffer \<Rightarrow> ptr \<Rightarrow> u32 \<Rightarrow> (memory \<times> cyclic_buffer \<times> u32) option" where
  "cyclic_buffer_recode_xor b m buf mptr mx =
     (let avail = available_to_recode buf in
      if avail = 0 then Some (m, buf, 0)
      else
        let sz = min avail mx;
            next_recode_idx = recode_idx buf + sz
        in do {
          (m, next_recode_idx) \<leftarrow>
            (if next_recode_idx > total_size buf then
               let size_till_end = total_size buf - recode_idx buf;
                   next_recode_idx = sz - size_till_end
               in do {
                 m \<leftarrow> (if mptr \<noteq> NULL then do {
                        m \<leftarrow> xor_memory_region b m (data_ptr buf + unat (recode_idx buf)) mptr
                               (ucast size_till_end);
                        xor_memory_region b m (data_ptr buf) (mptr + unat size_till_end)
                          (ucast next_recode_idx)
                      } else Some m);
                 Some (m, next_recode_idx)
               }
             else do {
               m \<leftarrow> (if mptr \<noteq> NULL
                     then xor_memory_region b m (data_ptr buf + unat (recode_idx buf)) mptr (ucast sz)
                     else Some m);
               next_recode_idx \<leftarrow> c_mod next_recode_idx (total_size buf);
               Some (m, next_recode_idx)
             });
          Some (m, buf\<lparr>recode_idx := next_recode_idx,
                       available_to_read := available_to_read buf + sz,
                       available_to_recode := available_to_recode buf - sz\<rparr>, sz)
        })"

text \<open>The mask buffer is a buffer other than \<open>buf\<close>; both are returned.\<close>

definition cyclic_buffer_recode_xor_buf ::
    "scalar_build \<Rightarrow> memory \<Rightarrow> cyclic_buffer \<Rightarrow> cyclic_buffer
      \<Rightarrow> (memory \<times> cyclic_buffer \<times> cyclic_buffer \<times> u32) option" where
  "cyclic_buffer_recode_xor_buf b m buf mask_buf =
     (if available_to_recode buf = 0 then Some (m, buf, mask_buf, 0)
      else if available_to_read mask_buf = 0 then Some (m, buf, mask_buf, 0)
      else
        let sz = min (available_to_recode buf) (available_to_read mask_buf);
            next_mask_read_idx = read_idx mask_buf + sz
        in do {
          (m, buf, next_mask_read_idx) \<leftarrow>
            (if next_mask_read_idx > total_size mask_buf then
               let size_till_end = total_size mask_buf - read_idx mask_buf;
                   next_mask_read_idx = sz - size_till_end
               in do {
                 (m, buf, _) \<leftarrow> cyclic_buffer_recode_xor b m buf
                    (data_ptr mask_buf + unat (read_idx mask_buf)) size_till_end;
                 (m, buf, _) \<leftarrow> cyclic_buffer_recode_xor b m buf
                    (data_ptr mask_buf) next_mask_read_idx;
                 Some (m, buf, next_mask_read_idx)
               }
             else do {
               next_mask_read_idx \<leftarrow> c_mod next_mask_read_idx (total_size mask_buf);
               (m, buf, _) \<leftarrow> cyclic_buffer_recode_xor b m buf
                  (data_ptr mask_buf + unat (read_idx mask_buf)) sz;
               Some (m, buf, next_mask_read_idx)
             });
          Some (m, buf, mask_buf\<lparr>read_idx := next_mask_read_idx,
                       available_to_write := available_to_write mask_buf + sz,
                       available_to_read := available_to_read mask_buf - sz\<rparr>, sz)
        })"

section \<open>Indices\<close>

definition next_idx :: "u32 \<Rightarrow> u32 \<Rightarrow> u32 \<Rightarrow> u32" where
  "next_idx tot idx n = of_nat ((unat idx + unat n) mod unat tot)"

definition MAX_TOTAL :: nat where
  "MAX_TOTAL = 2 ^ 30"

text \<open>An index and a step no longer than the ring: nothing wraps at 32 bits.\<close>

definition idx_ok :: "u32 \<Rightarrow> u32 \<Rightarrow> u32 \<Rightarrow> bool" where
  "idx_ok tot idx n \<longleftrightarrow> unat idx < unat tot \<and> unat n \<le> unat tot \<and> unat tot \<le> MAX_TOTAL"

lemma unat_next_idx:
  assumes "0 < unat tot"
  shows "unat (next_idx tot idx n) = (unat idx + unat n) mod unat tot"
proof -
  have "unat tot < 2 ^ 32" using unsigned_less [of tot] by simp
  then have "(unat idx + unat n) mod unat tot < 2 ^ 32"
    using mod_less_divisor [OF assms, of "unat idx + unat n"] by simp
  then show ?thesis by (simp add: next_idx_def unsigned_of_nat take_bit_nat_eq_self)
qed

lemma unat_idx_add: "idx_ok tot idx n \<Longrightarrow> unat (idx + n) = unat idx + unat n"
  by (rule unat_add_no_wrap) (simp add: idx_ok_def MAX_TOTAL_def)

lemma wraps_iff: "idx_ok tot idx n \<Longrightarrow> idx + n > tot \<longleftrightarrow> unat tot < unat idx + unat n"
  by (simp add: word_less_nat_alt unat_idx_add)

lemma unat_till_end: "idx_ok tot idx n \<Longrightarrow> unat (tot - idx) = unat tot - unat idx"
  by (rule unat_sub_no_wrap) (simp add: idx_ok_def)

lemma next_idx_wrapped:
  assumes ok: "idx_ok tot idx n" and "idx + n > tot"
  shows "unat (n - (tot - idx)) = unat n - (unat tot - unat idx)"
    and "n - (tot - idx) = next_idx tot idx n"
    and "unat (next_idx tot idx n) = unat n - (unat tot - unat idx)"
proof -
  have w: "unat tot < unat idx + unat n" using assms by (simp add: wraps_iff)
  show u: "unat (n - (tot - idx)) = unat n - (unat tot - unat idx)"
    using w by (subst unat_sub_no_wrap) (auto simp: unat_till_end [OF ok])
  have "unat (n - (tot - idx)) = unat (next_idx tot idx n)"
    using w ok mod_sum_cases [of "unat idx" "unat tot" "unat n"]
    by (simp add: u unat_next_idx idx_ok_def)
  then show "n - (tot - idx) = next_idx tot idx n"
    and "unat (next_idx tot idx n) = unat n - (unat tot - unat idx)"
    by (simp_all add: word_unat_eq_iff u)
qed

lemma next_idx_unwrapped: "idx_ok tot idx n \<Longrightarrow> (idx + n) mod tot = next_idx tot idx n"
  by (simp add: word_unat_eq_iff unat_mod unat_idx_add unat_next_idx idx_ok_def)

lemma next_idx_0: "unat idx < unat tot \<Longrightarrow> next_idx tot idx 0 = idx"
  by (simp add: next_idx_def)

section \<open>Well-formed buffers\<close>

text \<open>
  The invariant: the three counters share out the block, the recode index is the read index
  advanced by the readable bytes, the write index is the recode index advanced by the bytes
  to recode, and the data block is allocated.
\<close>

definition buffer_counts :: "cyclic_buffer \<Rightarrow> bool" where
  "buffer_counts buf \<longleftrightarrow>
     0 < unat (total_size buf) \<and> unat (total_size buf) \<le> MAX_TOTAL \<and>
     unat (read_idx buf) < unat (total_size buf) \<and>
     unat (available_to_read buf) + unat (available_to_recode buf) + unat (available_to_write buf)
       = unat (total_size buf) \<and>
     unat (recode_idx buf) =
       (unat (read_idx buf) + unat (available_to_read buf)) mod unat (total_size buf) \<and>
     unat (write_idx buf) =
       (unat (read_idx buf) + unat (available_to_read buf) + unat (available_to_recode buf))
         mod unat (total_size buf)"

definition wf_buffer :: "memory \<Rightarrow> cyclic_buffer \<Rightarrow> bool" where
  "wf_buffer m buf \<longleftrightarrow>
     buffer_counts buf \<and> data_ptr buf \<noteq> NULL \<and>
     valid_range m (data_ptr buf) (unat (total_size buf))"

text \<open>The abstract pipe a buffer stands for.\<close>

record pipe =
  ready :: "u8 list"
  raw :: "u8 list"
  room :: nat

definition buffer_pipe :: "memory \<Rightarrow> cyclic_buffer \<Rightarrow> pipe" where
  "buffer_pipe m buf =
     \<lparr>ready = ring_bytes m (data_ptr buf) (unat (total_size buf)) (unat (read_idx buf))
                (unat (available_to_read buf)),
      raw = ring_bytes m (data_ptr buf) (unat (total_size buf)) (unat (recode_idx buf))
                (unat (available_to_recode buf)),
      room = unat (available_to_write buf)\<rparr>"

definition pipe_read :: "nat \<Rightarrow> pipe \<Rightarrow> u8 list \<times> pipe" where
  "pipe_read n p = (let k = min n (length (ready p)) in
     (take k (ready p), p\<lparr>ready := drop k (ready p), room := room p + k\<rparr>))"

definition pipe_write :: "u8 list \<Rightarrow> pipe \<Rightarrow> pipe" where
  "pipe_write bs p = p\<lparr>raw := raw p @ bs, room := room p - length bs\<rparr>"

definition pipe_recode :: "u8 list \<Rightarrow> pipe \<Rightarrow> pipe" where
  "pipe_recode ks p = (let k = length ks in
     p\<lparr>ready := ready p @ map2 (XOR) (take k (raw p)) ks, raw := drop k (raw p)\<rparr>)"

text \<open>The struct after each stage has moved \<open>n\<close> bytes.\<close>

definition advance_read :: "cyclic_buffer \<Rightarrow> u32 \<Rightarrow> cyclic_buffer" where
  "advance_read buf n = buf\<lparr>read_idx := next_idx (total_size buf) (read_idx buf) n,
     available_to_write := available_to_write buf + n,
     available_to_read := available_to_read buf - n\<rparr>"

definition advance_write :: "cyclic_buffer \<Rightarrow> u32 \<Rightarrow> cyclic_buffer" where
  "advance_write buf n = buf\<lparr>write_idx := next_idx (total_size buf) (write_idx buf) n,
     available_to_recode := available_to_recode buf + n,
     available_to_write := available_to_write buf - n\<rparr>"

definition advance_recode :: "cyclic_buffer \<Rightarrow> u32 \<Rightarrow> cyclic_buffer" where
  "advance_recode buf n = buf\<lparr>recode_idx := next_idx (total_size buf) (recode_idx buf) n,
     available_to_read := available_to_read buf + n,
     available_to_recode := available_to_recode buf - n\<rparr>"

lemmas advance_defs = advance_read_def advance_write_def advance_recode_def

lemma buffer_counts_idx:
  assumes "buffer_counts buf"
  shows "unat (read_idx buf) < unat (total_size buf)"
    and "unat (recode_idx buf) < unat (total_size buf)"
    and "unat (write_idx buf) < unat (total_size buf)"
    and "unat (total_size buf) \<le> MAX_TOTAL" and "0 < unat (total_size buf)"
  using assms by (simp_all add: buffer_counts_def)

lemma buffer_counts_avail:
  assumes "buffer_counts buf"
  shows "unat (available_to_read buf) \<le> unat (total_size buf)"
    and "unat (available_to_recode buf) \<le> unat (total_size buf)"
    and "unat (available_to_write buf) \<le> unat (total_size buf)"
  using assms by (simp_all add: buffer_counts_def)

lemma unat_avail_add:
  assumes "buffer_counts buf" and "unat n \<le> unat (total_size buf)"
  shows "unat (available_to_read buf + n) = unat (available_to_read buf) + unat n"
    and "unat (available_to_recode buf + n) = unat (available_to_recode buf) + unat n"
    and "unat (available_to_write buf + n) = unat (available_to_write buf) + unat n"
  using assms buffer_counts_avail [OF assms(1)] buffer_counts_idx(4) [OF assms(1)]
  by (auto intro!: unat_add_no_wrap simp: MAX_TOTAL_def)

lemma buffer_counts_advance_read:
  assumes c: "buffer_counts buf" and n: "unat n \<le> unat (available_to_read buf)"
  shows "buffer_counts (advance_read buf n)"
proof -
  have nt: "unat n \<le> unat (total_size buf)" using n buffer_counts_avail [OF c] by simp
  show ?thesis
    using c n unat_avail_add [OF c nt] buffer_counts_idx [OF c]
    by (simp add: buffer_counts_def advance_read_def unat_next_idx unat_sub_no_wrap mod_advance)
qed

lemma buffer_counts_advance_write:
  assumes c: "buffer_counts buf" and n: "unat n \<le> unat (available_to_write buf)"
  shows "buffer_counts (advance_write buf n)"
proof -
  have nt: "unat n \<le> unat (total_size buf)" using n buffer_counts_avail [OF c] by simp
  show ?thesis
    using c n unat_avail_add [OF c nt] buffer_counts_idx [OF c]
    by (simp add: buffer_counts_def advance_write_def unat_next_idx unat_sub_no_wrap mod_add_left_eq add.assoc)
qed

lemma buffer_counts_advance_recode:
  assumes c: "buffer_counts buf" and n: "unat n \<le> unat (available_to_recode buf)"
  shows "buffer_counts (advance_recode buf n)"
proof -
  have nt: "unat n \<le> unat (total_size buf)" using n buffer_counts_avail [OF c] by simp
  show ?thesis
    using c n unat_avail_add [OF c nt] buffer_counts_idx [OF c]
    by (simp add: buffer_counts_def advance_recode_def unat_next_idx unat_sub_no_wrap mod_add_left_eq add.assoc)
qed

lemmas buffer_counts_advance =
  buffer_counts_advance_read buffer_counts_advance_write buffer_counts_advance_recode

lemma advance_fields [simp]:
  "data_ptr (advance_read buf n) = data_ptr buf" "total_size (advance_read buf n) = total_size buf"
  "data_ptr (advance_write buf n) = data_ptr buf" "total_size (advance_write buf n) = total_size buf"
  "data_ptr (advance_recode buf n) = data_ptr buf" "total_size (advance_recode buf n) = total_size buf"
  "available_to_read (advance_read buf n) = available_to_read buf - n"
  "available_to_recode (advance_read buf n) = available_to_recode buf"
  "available_to_write (advance_read buf n) = available_to_write buf + n"
  "available_to_read (advance_write buf n) = available_to_read buf"
  "available_to_recode (advance_write buf n) = available_to_recode buf + n"
  "available_to_write (advance_write buf n) = available_to_write buf - n"
  "available_to_read (advance_recode buf n) = available_to_read buf + n"
  "available_to_recode (advance_recode buf n) = available_to_recode buf - n"
  "available_to_write (advance_recode buf n) = available_to_write buf"
  by (simp_all add: advance_defs)

lemma advance_0:
  assumes "buffer_counts buf"
  shows "advance_read buf 0 = buf" "advance_write buf 0 = buf" "advance_recode buf 0 = buf"
  using buffer_counts_idx [OF assms] by (simp_all add: advance_defs next_idx_0)

section \<open>What the operations compute\<close>

text \<open>
  A linear region a stage works with (destination, source or mask): allocated, long enough
  and clear of the data block.  A null pointer makes the stage skip the bytes.
\<close>

definition region_ok :: "memory \<Rightarrow> cyclic_buffer \<Rightarrow> ptr \<Rightarrow> nat \<Rightarrow> bool" where
  "region_ok m buf q n \<longleftrightarrow>
     q \<noteq> NULL \<longrightarrow> valid_range m q n \<and>
       disjoint_ranges q n (data_ptr buf) (unat (total_size buf))"

lemma region_ok_ring:
  assumes "wf_buffer m buf" and "region_ok m buf q n" and "q \<noteq> NULL" and "n \<le> unat (total_size buf)"
  shows "ring_ok m (data_ptr buf) (unat (total_size buf)) q n"
  using assms by (simp add: wf_buffer_def region_ok_def ring_ok_def)

abbreviation (input) buf_ring :: "memory \<Rightarrow> cyclic_buffer \<Rightarrow> u32 \<Rightarrow> u32 \<Rightarrow> u8 list" where
  "buf_ring m buf idx n \<equiv> ring_bytes m (data_ptr buf) (unat (total_size buf)) (unat idx) (unat n)"

abbreviation (input) buf_store :: "memory \<Rightarrow> cyclic_buffer \<Rightarrow> u32 \<Rightarrow> u8 list \<Rightarrow> memory" where
  "buf_store m buf idx bs \<equiv> ring_write m (data_ptr buf) (unat (total_size buf)) (unat idx) bs"

lemma cyclic_buffer_read_result:
  assumes wf: "wf_buffer m buf" and n: "n = min (available_to_read buf) mx"
    and reg: "region_ok m buf dest (unat n)"
  shows "cyclic_buffer_read m buf dest mx =
    Some (if dest = NULL then m else write_bytes m dest (buf_ring m buf (read_idx buf) n),
          advance_read buf n, n)"
proof (cases "available_to_read buf = 0")
  case True
  then have "n = 0" by (simp add: n)
  then show ?thesis
    using True wf by (simp add: cyclic_buffer_read_def wf_buffer_def advance_0)
next
  case False
  have c: "buffer_counts buf" using wf by (simp add: wf_buffer_def)
  have "unat n \<le> unat (total_size buf)"
    using buffer_counts_avail [OF c] by (simp add: n unat_min min.coboundedI1)
  note nt = this
  have ok: "idx_ok (total_size buf) (read_idx buf) n"
    using nt buffer_counts_idx [OF c] by (simp add: idx_ok_def)
  have ring: "dest \<noteq> NULL \<Longrightarrow> ring_ok m (data_ptr buf) (unat (total_size buf)) dest (unat n)"
    using region_ok_ring [OF wf reg _ nt] by simp
  have lt: "unat (read_idx buf) < unat (total_size buf)" "total_size buf \<noteq> 0"
    using buffer_counts_idx [OF c] by auto
  show ?thesis
  proof (cases "read_idx buf + n > total_size buf")
    case True
    then have "unat (total_size buf) \<le> unat (read_idx buf) + unat n"
      using wraps_iff [OF ok] by simp
    note copy = memcpy_out_wrap [OF ring lt(1) this, unfolded bind_eq_Some_conv]
    show ?thesis
      using False True copy
      by (auto simp: cyclic_buffer_read_def Let_def advance_read_def next_idx_wrapped [OF ok True]
          unat_till_end [OF ok] simp flip: n)
  next
    case nw: False
    then have "unat (read_idx buf) + unat n \<le> unat (total_size buf)"
      using wraps_iff [OF ok] by simp
    note copy = memcpy_out_linear [OF ring this]
    show ?thesis
      using False nw copy
      by (simp add: cyclic_buffer_read_def Let_def c_mod_Some lt next_idx_unwrapped [OF ok]
          advance_read_def flip: n)
  qed
qed

lemma cyclic_buffer_write_result:
  assumes wf: "wf_buffer m buf" and n: "n = min (available_to_write buf) mx"
    and reg: "region_ok m buf src (unat n)"
  shows "cyclic_buffer_write m buf src mx =
    Some (if src = NULL then m else buf_store m buf (write_idx buf) (read_bytes m src (unat n)),
          advance_write buf n, n)"
proof (cases "available_to_write buf = 0")
  case True
  then have n0: "n = 0" by (simp add: n)
  have "buffer_counts buf" using wf by (simp add: wf_buffer_def)
  then show ?thesis
    using True by (simp add: cyclic_buffer_write_def n0 advance_0)
next
  case False
  have c: "buffer_counts buf" using wf by (simp add: wf_buffer_def)
  have nt: "unat n \<le> unat (total_size buf)"
    using buffer_counts_avail [OF c] by (simp add: n unat_min min.coboundedI1)
  have ok: "idx_ok (total_size buf) (write_idx buf) n"
    using nt buffer_counts_idx [OF c] by (simp add: idx_ok_def)
  have ring: "src \<noteq> NULL \<Longrightarrow> ring_ok m (data_ptr buf) (unat (total_size buf)) src (unat n)"
    using region_ok_ring [OF wf reg _ nt] by simp
  have lt: "unat (write_idx buf) < unat (total_size buf)" "total_size buf \<noteq> 0"
    using buffer_counts_idx [OF c] by auto
  show ?thesis
  proof (cases "write_idx buf + n > total_size buf")
    case True
    then have "unat (total_size buf) \<le> unat (write_idx buf) + unat n"
      using wraps_iff [OF ok] by simp
    note copy = memcpy_in_wrap [OF ring lt(1) this, unfolded bind_eq_Some_conv]
    show ?thesis
      using False True copy
      by (auto simp: cyclic_buffer_write_def Let_def advance_write_def next_idx_wrapped [OF ok True]
          unat_till_end [OF ok] simp flip: n)
  next
    case nw: False
    then have "unat (write_idx buf) + unat n \<le> unat (total_size buf)"
      using wraps_iff [OF ok] by simp
    note copy = memcpy_in_linear [OF ring this lt(1)]
    show ?thesis
      using False nw copy
      by (simp add: cyclic_buffer_write_def Let_def c_mod_Some lt next_idx_unwrapped [OF ok]
          advance_write_def flip: n)
  qed
qed

lemma unat_ucast_size [simp]: "unat (ucast (n :: u32) :: u64) = unat n"
proof -
  have "unat n < 2 ^ 64" using unsigned_less [of n] by (rule order.strict_trans) simp
  then show ?thesis by (simp add: unsigned_ucast_eq take_bit_nat_eq_self)
qed

lemma cyclic_buffer_recode_xor_result:
  assumes wf: "wf_buffer m buf" and n: "n = min (available_to_recode buf) mx"
    and reg: "region_ok m buf mptr (unat n)"
  shows "cyclic_buffer_recode_xor b m buf mptr mx =
    Some (if mptr = NULL then m
          else buf_store m buf (recode_idx buf)
                 (map2 (XOR) (buf_ring m buf (recode_idx buf) n) (read_bytes m mptr (unat n))),
          advance_recode buf n, n)"
proof (cases "available_to_recode buf = 0")
  case True
  then have n0: "n = 0" by (simp add: n)
  have "buffer_counts buf" using wf by (simp add: wf_buffer_def)
  then show ?thesis
    using True by (simp add: cyclic_buffer_recode_xor_def n0 advance_0)
next
  case False
  have c: "buffer_counts buf" using wf by (simp add: wf_buffer_def)
  have nt: "unat n \<le> unat (total_size buf)"
    using buffer_counts_avail [OF c] by (simp add: n unat_min min.coboundedI1)
  have ok: "idx_ok (total_size buf) (recode_idx buf) n"
    using nt buffer_counts_idx [OF c] by (simp add: idx_ok_def)
  have ring: "mptr \<noteq> NULL \<Longrightarrow> ring_ok m (data_ptr buf) (unat (total_size buf)) mptr (unat n)"
    using region_ok_ring [OF wf reg _ nt] by simp
  have lt: "unat (recode_idx buf) < unat (total_size buf)" "total_size buf \<noteq> 0"
    using buffer_counts_idx [OF c] by auto
  show ?thesis
  proof (cases "recode_idx buf + n > total_size buf")
    case True
    then have "unat (total_size buf) \<le> unat (recode_idx buf) + unat n"
      using wraps_iff [OF ok] by simp
    note copy = mem_xor.xr_wrap [OF ring lt(1) this, unfolded bind_eq_Some_conv,
        of "ucast (total_size buf - recode_idx buf)"
           "ucast (next_idx (total_size buf) (recode_idx buf) n)" b]
    show ?thesis
      using False True copy
      by (auto simp: cyclic_buffer_recode_xor_def Let_def advance_recode_def
          next_idx_wrapped [OF ok True] unat_till_end [OF ok] simp flip: n)
  next
    case nw: False
    then have "unat (recode_idx buf) + unat n \<le> unat (total_size buf)"
      using wraps_iff [OF ok] by simp
    note copy = mem_xor.xr_linear [of m _ _ mptr "ucast n", OF _ _ lt(1), simplified, OF ring this, of b]
    show ?thesis
      using False nw copy
      by (simp add: cyclic_buffer_recode_xor_def Let_def c_mod_Some lt next_idx_unwrapped [OF ok]
          advance_recode_def flip: n)
  qed
qed

lemma cyclic_buffer_recode_none_result:
  assumes "buffer_counts buf"
  shows "cyclic_buffer_recode_none buf =
    Some (advance_recode buf (available_to_recode buf), available_to_recode buf)"
proof -
  have "idx_ok (total_size buf) (recode_idx buf) (available_to_recode buf)"
    using buffer_counts_idx [OF assms] buffer_counts_avail [OF assms] by (simp add: idx_ok_def)
  moreover have "total_size buf \<noteq> 0" using buffer_counts_idx [OF assms] by auto
  ultimately show ?thesis
    by (simp add: cyclic_buffer_recode_none_def Let_def c_mod_Some next_idx_unwrapped advance_recode_def)
qed

section \<open>The operations on the pipe\<close>

lemma wf_buffer_advance:
  assumes "wf_buffer m buf" and "valid_range m' = valid_range m"
  shows "unat n \<le> unat (available_to_read buf) \<Longrightarrow> wf_buffer m' (advance_read buf n)"
    and "unat n \<le> unat (available_to_write buf) \<Longrightarrow> wf_buffer m' (advance_write buf n)"
    and "unat n \<le> unat (available_to_recode buf) \<Longrightarrow> wf_buffer m' (advance_recode buf n)"
  using assms by (simp_all add: wf_buffer_def buffer_counts_advance)

text \<open>
  The pipe seen from the read index: the readable bytes and the raw bytes are consecutive
  parts of one view of the whole block.
\<close>

definition buffer_view :: "memory \<Rightarrow> cyclic_buffer \<Rightarrow> u8 list" where
  "buffer_view m buf =
     ring_bytes m (data_ptr buf) (unat (total_size buf)) (unat (read_idx buf)) (unat (total_size buf))"

lemma buffer_pipe_view:
  assumes "buffer_counts buf"
  shows "ready (buffer_pipe m buf) = take (unat (available_to_read buf)) (buffer_view m buf)"
    and "raw (buffer_pipe m buf) =
      take (unat (available_to_recode buf)) (drop (unat (available_to_read buf)) (buffer_view m buf))"
    and "room (buffer_pipe m buf) = unat (available_to_write buf)"
proof -
  have "unat (available_to_recode buf) \<le> unat (total_size buf) - unat (available_to_read buf)"
    using assms unfolding buffer_counts_def by linarith
  then show "raw (buffer_pipe m buf) =
      take (unat (available_to_recode buf)) (drop (unat (available_to_read buf)) (buffer_view m buf))"
    using assms
    by (simp add: buffer_pipe_def buffer_view_def take_ring_bytes drop_ring_bytes buffer_counts_def)
qed (use assms in \<open>simp_all add: buffer_pipe_def buffer_view_def take_ring_bytes buffer_counts_def\<close>)

lemma length_buffer_view [simp]: "length (buffer_view m buf) = unat (total_size buf)"
  by (simp add: buffer_view_def)

lemma buffer_view_store:
  assumes "buffer_counts buf" and "k + length bs \<le> unat (total_size buf)"
  shows "buffer_view (ring_write m (data_ptr buf) (unat (total_size buf))
      ((unat (read_idx buf) + k) mod unat (total_size buf)) bs) buf = splice (buffer_view m buf) k bs"
  using ring_view_write [OF buffer_counts_idx(1) [OF assms(1)] assms(2)] by (simp add: buffer_view_def)

lemma length_pipe [simp]:
  "length (ready (buffer_pipe m buf)) = unat (available_to_read buf)"
  "length (raw (buffer_pipe m buf)) = unat (available_to_recode buf)"
  by (simp_all add: buffer_pipe_def)

lemma buffer_pipe_write_outside:
  assumes "wf_buffer m buf" and "disjoint_ranges q (length bs) (data_ptr buf) (unat (total_size buf))"
  shows "buffer_pipe (write_bytes m q bs) buf = buffer_pipe m buf"
  using assms by (simp add: buffer_pipe_def ring_bytes_write_outside wf_buffer_def buffer_counts_def)

lemma buffer_pipe_advance_read:
  assumes wf: "wf_buffer m buf" and n: "unat n \<le> unat (available_to_read buf)"
  shows "buffer_pipe m (advance_read buf n) = snd (pipe_read (unat n) (buffer_pipe m buf))"
proof -
  have c: "buffer_counts buf" using wf by (simp add: wf_buffer_def)
  have "unat n \<le> unat (total_size buf)" using n buffer_counts_avail [OF c] by simp
  then show ?thesis
    using n buffer_counts_idx [OF c] unat_avail_add [OF c, of n]
    by (simp add: pipe_read_def Let_def buffer_pipe_def advance_read_def unat_sub_no_wrap
        unat_next_idx drop_ring_bytes min.absorb1)
qed

lemma buffer_pipe_advance_write:
  assumes wf: "wf_buffer m buf" and n: "unat n \<le> unat (available_to_write buf)" "length bs = unat n"
  shows "buffer_pipe (buf_store m buf (write_idx buf) bs) (advance_write buf n)
    = pipe_write bs (buffer_pipe m buf)"
proof -
  have c: "buffer_counts buf" using wf by (simp add: wf_buffer_def)
  let ?ar = "unat (available_to_read buf)" and ?ac = "unat (available_to_recode buf)"
  let ?m = "buf_store m buf (write_idx buf) bs" and ?v = "buffer_view m buf"
  have nt: "unat n \<le> unat (total_size buf)" using n buffer_counts_avail [OF c] by simp
  have sum: "?ar + ?ac + unat n \<le> unat (total_size buf)" using c n(1) by (simp add: buffer_counts_def)
  have "buffer_view ?m buf = splice ?v (?ar + ?ac) bs"
    using buffer_view_store [OF c, of "?ar + ?ac" bs m] sum n(2) c
    by (simp add: buffer_counts_def add.assoc)
  then have v: "buffer_view ?m (advance_write buf n) = splice ?v (?ar + ?ac) bs"
    by (simp add: buffer_view_def advance_write_def)
  have "take ?ar (splice ?v (?ar + ?ac) bs) = take ?ar ?v"
    using sum by (simp add: take_splice_le)
  moreover have "take (?ac + unat n) (drop ?ar (splice ?v (?ar + ?ac) bs)) = take ?ac (drop ?ar ?v) @ bs"
  proof -
    have "take (?ac + unat n) (drop ?ar (splice ?v (?ar + ?ac) bs)) =
        drop ?ar (take (?ar + ?ac + length bs) (splice ?v (?ar + ?ac) bs))"
      by (simp add: take_drop n(2) add.assoc add.commute [of _ ?ar])
    also have "\<dots> = drop ?ar (take (?ar + ?ac) ?v @ bs)"
      using sum by (simp only: take_splice length_buffer_view)
    also have "\<dots> = take ?ac (drop ?ar ?v) @ bs"
      using sum by (simp add: take_drop add.commute [of ?ac])
    finally show ?thesis .
  qed
  ultimately show ?thesis
    using buffer_pipe_view [OF buffer_counts_advance_write [OF c n(1)], of ?m]
      buffer_pipe_view [OF c, of m] unat_avail_add [OF c nt] n
    by (intro pipe.equality) (simp_all add: pipe_write_def v unat_sub_no_wrap)
qed

lemma buffer_pipe_advance_recode:
  assumes wf: "wf_buffer m buf" and n: "unat n \<le> unat (available_to_recode buf)" "length bs = unat n"
  shows "buffer_pipe (buf_store m buf (recode_idx buf) bs) (advance_recode buf n)
    = (buffer_pipe m buf)\<lparr>ready := ready (buffer_pipe m buf) @ bs,
                           raw := drop (unat n) (raw (buffer_pipe m buf))\<rparr>"
proof -
  have c: "buffer_counts buf" using wf by (simp add: wf_buffer_def)
  let ?ar = "unat (available_to_read buf)" and ?ac = "unat (available_to_recode buf)"
  let ?m = "buf_store m buf (recode_idx buf) bs" and ?v = "buffer_view m buf"
  have nt: "unat n \<le> unat (total_size buf)" using n buffer_counts_avail [OF c] by simp
  have sum: "?ar + unat n \<le> unat (total_size buf)" using c n(1) by (simp add: buffer_counts_def)
  have "buffer_view ?m buf = splice ?v ?ar bs"
    using buffer_view_store [OF c, of ?ar bs m] sum n(2) c by (simp add: buffer_counts_def)
  then have v: "buffer_view ?m (advance_recode buf n) = splice ?v ?ar bs"
    by (simp add: buffer_view_def advance_recode_def)
  have "take (?ar + unat n) (splice ?v ?ar bs) = take ?ar ?v @ bs"
    using take_splice [of ?ar ?v bs] sum n(2) by simp
  moreover have "take (?ac - unat n) (drop (?ar + unat n) (splice ?v ?ar bs)) =
      drop (unat n) (take ?ac (drop ?ar ?v))"
    using drop_splice [of ?ar ?v bs] sum n by (simp add: drop_take add.commute)
  ultimately show ?thesis
    using buffer_pipe_view [OF buffer_counts_advance_recode [OF c n(1)], of ?m]
      buffer_pipe_view [OF c, of m] unat_avail_add [OF c nt] n
    by (intro pipe.equality) (simp_all add: v unat_sub_no_wrap)
qed

lemma buffer_pipe_skip_recode:
  assumes wf: "wf_buffer m buf" and n: "unat n \<le> unat (available_to_recode buf)"
  shows "buffer_pipe m (advance_recode buf n)
    = (buffer_pipe m buf)\<lparr>ready := ready (buffer_pipe m buf) @ take (unat n) (raw (buffer_pipe m buf)),
                           raw := drop (unat n) (raw (buffer_pipe m buf))\<rparr>"
proof -
  have c: "buffer_counts buf" using wf by (simp add: wf_buffer_def)
  have "unat n \<le> unat (total_size buf)" using n buffer_counts_avail [OF c] by simp
  then show ?thesis
    using n c unat_avail_add [OF c, of n] ring_bytes_mod
    by (simp add: buffer_pipe_def unat_sub_no_wrap ring_bytes_add take_ring_bytes drop_ring_bytes
        buffer_counts_def) (simp add: advance_recode_def unat_next_idx)
qed

section \<open>Recoding with a mask buffer\<close>

lemma advance_recode_add:
  assumes c: "buffer_counts buf"
  shows "unat n + unat k \<le> unat (total_size buf) \<Longrightarrow>
    advance_recode (advance_recode buf n) k = advance_recode buf (n + k)"
proof -
  assume nk: "unat n + unat k \<le> unat (total_size buf)"
  have t: "0 < unat (total_size buf)" using buffer_counts_idx [OF c] by simp
  have "unat (n + k) = unat n + unat k"
    using nk buffer_counts_idx(4) [OF c] by (intro unat_add_no_wrap) (simp add: MAX_TOTAL_def)
  then have "next_idx (total_size buf) (next_idx (total_size buf) (recode_idx buf) n) k
      = next_idx (total_size buf) (recode_idx buf) (n + k)"
    using t by (simp add: word_unat_eq_iff unat_next_idx mod_add_left_eq add.assoc)
  then show ?thesis by (simp add: advance_recode_def algebra_simps)
qed

definition masked_raw :: "memory \<Rightarrow> cyclic_buffer \<Rightarrow> u8 list \<Rightarrow> u8 list" where
  "masked_raw m buf ks = map2 (XOR)
     (ring_bytes m (data_ptr buf) (unat (total_size buf)) (unat (recode_idx buf)) (length ks)) ks"

lemma length_masked_raw [simp]: "length (masked_raw m buf ks) = length ks"
  by (simp add: masked_raw_def)

text \<open>Two consecutive recodes with masks \<open>xs\<close> and \<open>ys\<close> are one with \<open>xs @ ys\<close>.\<close>

lemma recode_twice:
  assumes c: "buffer_counts buf" and x: "length xs = unat n" and "unat n + length ys \<le> unat (total_size buf)"
  shows "(let m1 = buf_store m buf (recode_idx buf) (masked_raw m buf xs); buf1 = advance_recode buf n
      in buf_store m1 buf1 (recode_idx buf1) (masked_raw m1 buf1 ys))
    = buf_store m buf (recode_idx buf) (masked_raw m buf (xs @ ys))"
proof -
  let ?p = "data_ptr buf" and ?t = "unat (total_size buf)" and ?i = "unat (recode_idx buf)"
  have t: "0 < ?t" "?i < ?t" using buffer_counts_idx [OF c] by simp_all
  have i1: "unat (recode_idx (advance_recode buf n)) = (?i + unat n) mod ?t"
    using t by (simp add: advance_recode_def unat_next_idx)
  have "masked_raw m buf (xs @ ys) = masked_raw m buf xs @
      map2 (XOR) (ring_bytes m ?p ?t ((?i + unat n) mod ?t) (length ys)) ys"
    by (simp add: masked_raw_def ring_bytes_add map2_append x del: ring_bytes_mod)
  then show ?thesis
    using ring_write_append [OF t(2), of "masked_raw m buf xs" _ m ?p]
      ring_bytes_write_later [OF t(2), of "masked_raw m buf xs" "unat n" "length ys" m ?p] x assms(3)
    by (simp add: Let_def masked_raw_def [of "ring_write m ?p ?t ?i (masked_raw m buf xs)"] i1
        del: ring_bytes_mod)
qed

lemma cyclic_buffer_recode_xor_masked:
  assumes "wf_buffer m buf" and "mptr \<noteq> NULL" and "unat n \<le> unat (available_to_recode buf)"
    and "region_ok m buf mptr (unat n)"
  shows "cyclic_buffer_recode_xor b m buf mptr n =
    Some (buf_store m buf (recode_idx buf) (masked_raw m buf (read_bytes m mptr (unat n))),
          advance_recode buf n, n)"
proof -
  have "n = min (available_to_recode buf) n" using assms(3) by (simp add: word_unat_eq_iff unat_min)
  from cyclic_buffer_recode_xor_result [OF assms(1) this assms(4)] show ?thesis
    using assms(2) by (simp add: masked_raw_def)
qed

lemma cyclic_buffer_recode_xor_buf_result:
  assumes wf: "wf_buffer m buf" and wm: "wf_buffer m mb"
    and dis: "disjoint_ranges (data_ptr mb) (unat (total_size mb)) (data_ptr buf) (unat (total_size buf))"
    and n: "n = min (available_to_recode buf) (available_to_read mb)"
  shows "cyclic_buffer_recode_xor_buf b m buf mb =
    Some (buf_store m buf (recode_idx buf) (masked_raw m buf (buf_ring m mb (read_idx mb) n)),
          advance_recode buf n, advance_read mb n, n)"
proof (cases "available_to_recode buf = 0 \<or> available_to_read mb = 0")
  case True
  then have "n = 0" by (auto simp: n)
  then show ?thesis
    using True wf wm
    by (auto simp: cyclic_buffer_recode_xor_buf_def wf_buffer_def advance_0 masked_raw_def)
next
  case False
  let ?p = "data_ptr mb" and ?t = "unat (total_size mb)" and ?i = "unat (read_idx mb)"
  have c: "buffer_counts buf" and cm: "buffer_counts mb" using wf wm by (simp_all add: wf_buffer_def)
  have nac: "unat n \<le> unat (available_to_recode buf)" and nar: "unat n \<le> unat (available_to_read mb)"
    by (simp_all add: n unat_min)
  have nt: "unat n \<le> ?t" using nar buffer_counts_avail [OF cm] by simp
  have ok: "idx_ok (total_size mb) (read_idx mb) n"
    using nt buffer_counts_idx [OF cm] by (simp add: idx_ok_def)
  have lt: "?i < ?t" "total_size mb \<noteq> 0" using buffer_counts_idx [OF cm] by auto
  have p: "?p \<noteq> NULL" "valid_range m ?p ?t" using wm by (auto simp: wf_buffer_def)
  have reg: "region_ok m' buf' (?p + k) l"
    if "k + l \<le> ?t" "valid_range m' = valid_range m" "data_ptr buf' = data_ptr buf"
      "total_size buf' = total_size buf" for k l m' buf'
    using that p dis by (auto simp: region_ok_def disjoint_ranges_def intro: valid_range_sub)
  show ?thesis
  proof (cases "read_idx mb + n > total_size mb")
    case True
    define a where "a = total_size mb - read_idx mb"
    define d where "d = next_idx (total_size mb) (read_idx mb) n"
    have ua: "unat a = ?t - ?i" by (simp add: a_def unat_till_end [OF ok])
    have ud: "unat d = unat n - (?t - ?i)" "n - a = d"
      by (simp_all add: a_def d_def next_idx_wrapped [OF ok True])
    have w: "?t \<le> ?i + unat n" using wraps_iff [OF ok] True by simp
    define xs where "xs = read_bytes m (?p + ?i) (unat a)"
    define ys where "ys = read_bytes m ?p (unat d)"
    define m1 where "m1 = buf_store m buf (recode_idx buf) (masked_raw m buf xs)"
    define buf1 where "buf1 = advance_recode buf a"
    have xy: "buf_ring m mb (read_idx mb) n = xs @ ys"
      using ring_bytes_wrap [OF lt(1) w nt] by (simp add: xs_def ys_def ua ud)
    have 1: "cyclic_buffer_recode_xor b m buf (?p + ?i) a = Some (m1, buf1, a)"
      unfolding m1_def buf1_def xs_def
      using ua w nac lt p by (intro cyclic_buffer_recode_xor_masked wf reg) auto
    have a_ac: "unat a \<le> unat (available_to_recode buf)" using ua w nac by simp
    have wf1: "wf_buffer m1 buf1"
      unfolding buf1_def by (rule wf_buffer_advance(3) [OF wf _ a_ac]) (simp add: m1_def)
    have keep: "read_bytes m1 ?p (unat d) = ys"
      unfolding ys_def
    proof (rule nth_equalityI)
      fix j assume "j < length (read_bytes m1 ?p (unat d))"
      then have "j < ?t" using ud lt nt by simp
      then have "?p + j < data_ptr buf \<or> data_ptr buf + unat (total_size buf) \<le> ?p + j"
        using disjoint_rangesD [OF dis, of "?p + j"] by (metis le_add1 nat_add_left_cancel_less not_less)
      then show "read_bytes m1 ?p (unat d) ! j = read_bytes m ?p (unat d) ! j"
        using \<open>j < length _\<close> by (simp add: m1_def byte_at_ring_write_outside)
    qed simp
    have "unat (available_to_recode buf1) = unat (available_to_recode buf) - unat a"
      using a_ac by (simp add: buf1_def unat_sub_no_wrap)
    then have 2: "cyclic_buffer_recode_xor b m1 buf1 ?p d =
        Some (buf_store m1 buf1 (recode_idx buf1) (masked_raw m1 buf1 ys), advance_recode buf1 d, d)"
      unfolding keep [symmetric] using ua ud nac lt nt p reg [of 0]
      by (intro cyclic_buffer_recode_xor_masked wf1) (auto simp: m1_def buf1_def)
    have "unat a + length ys \<le> unat (total_size buf)"
      using ua ud w nac buffer_counts_avail [OF c] by (simp add: ys_def)
    then have 3: "buf_store m1 buf1 (recode_idx buf1) (masked_raw m1 buf1 ys) =
        buf_store m buf (recode_idx buf) (masked_raw m buf (xs @ ys))"
      using recode_twice [OF c, of xs a ys m] by (simp add: Let_def m1_def buf1_def xs_def)
    have 4: "advance_recode buf1 d = advance_recode buf n"
      using advance_recode_add [OF c, of a d] ua ud w nac buffer_counts_avail [OF c]
      unfolding buf1_def by (metis add.commute diff_add_cancel le_add_diff_inverse le_diff_conv order.trans
        le_add_diff_inverse2 trans_le_add1)
    show ?thesis
      using False True
      by (simp add: cyclic_buffer_recode_xor_buf_def Let_def 1 2 3 4 xy ud flip: n a_def)
         (simp add: advance_read_def d_def)
  next
    case nw: False
    then have le: "?i + unat n \<le> ?t" using wraps_iff [OF ok] by simp
    have "cyclic_buffer_recode_xor b m buf (?p + ?i) n =
        Some (buf_store m buf (recode_idx buf) (masked_raw m buf (read_bytes m (?p + ?i) (unat n))),
          advance_recode buf n, n)"
      using p le by (intro cyclic_buffer_recode_xor_masked wf nac reg) auto
    then show ?thesis
      using False nw lt
      by (simp add: cyclic_buffer_recode_xor_buf_def Let_def c_mod_Some next_idx_unwrapped [OF ok]
          ring_bytes_linear [OF le] advance_read_def flip: n)
  qed
qed

section \<open>Refinement of the pipe operations\<close>

text \<open>What a call leaves alone: the allocated objects and every byte outside a region.\<close>

definition only_changes :: "memory \<Rightarrow> memory \<Rightarrow> ptr \<Rightarrow> nat \<Rightarrow> bool" where
  "only_changes m m' p n \<longleftrightarrow>
     blocks m' = blocks m \<and> (\<forall>a. a < p \<or> p + n \<le> a \<longrightarrow> byte_at m' a = byte_at m a)"

lemma only_changes_write_bytes: "length bs = n \<Longrightarrow> only_changes m (write_bytes m p bs) p n"
  by (auto simp: only_changes_def byte_at_write_bytes)

lemma only_changes_ring_write: "only_changes m (ring_write m p t i bs) p t"
  by (auto simp: only_changes_def byte_at_ring_write)

lemma only_changes_refl: "only_changes m m p n"
  by (simp add: only_changes_def)

abbreviation (input) buf_block :: "memory \<Rightarrow> memory \<Rightarrow> cyclic_buffer \<Rightarrow> bool" where
  "buf_block m m' buf \<equiv> only_changes m m' (data_ptr buf) (unat (total_size buf))"

lemma read_refines:
  assumes wf: "wf_buffer m buf" and n: "n = min (available_to_read buf) mx"
    and reg: "region_ok m buf dest (unat n)" and dest: "dest \<noteq> NULL"
  obtains m' buf' where "cyclic_buffer_read m buf dest mx = Some (m', buf', n)"
    and "wf_buffer m' buf'" and "only_changes m m' dest (unat n)"
    and "(read_bytes m' dest (unat n), buffer_pipe m' buf') = pipe_read (unat mx) (buffer_pipe m buf)"
proof
  let ?m' = "write_bytes m dest (buf_ring m buf (read_idx buf) n)" and ?buf' = "advance_read buf n"
  have le: "unat n \<le> unat (available_to_read buf)" by (simp add: n unat_min)
  show "cyclic_buffer_read m buf dest mx = Some (?m', ?buf', n)"
    using cyclic_buffer_read_result [OF wf n reg] dest by simp
  show wf': "wf_buffer ?m' ?buf'" by (rule wf_buffer_advance(1) [OF wf _ le]) simp
  show "only_changes m ?m' dest (unat n)" by (rule only_changes_write_bytes) simp
  have dis: "disjoint_ranges dest (length (buf_ring m buf (read_idx buf) n)) (data_ptr buf) (unat (total_size buf))"
    using reg dest by (simp add: region_ok_def)
  have "buffer_pipe ?m' ?buf' = buffer_pipe m ?buf'"
    using buffer_pipe_write_outside [of m ?buf' dest] wf_buffer_advance(1) [OF wf _ le, of m] dis by simp
  then have "buffer_pipe ?m' ?buf' = snd (pipe_read (unat n) (buffer_pipe m buf))"
    using buffer_pipe_advance_read [OF wf le] by simp
  then show "(read_bytes ?m' dest (unat n), buffer_pipe ?m' ?buf') = pipe_read (unat mx) (buffer_pipe m buf)"
    by (simp add: pipe_read_def Let_def n unat_min min.commute)
       (simp add: buffer_pipe_def take_ring_bytes unat_min min.commute)
qed

lemma write_refines:
  assumes wf: "wf_buffer m buf" and n: "n = min (available_to_write buf) mx"
    and reg: "region_ok m buf src (unat n)" and src: "src \<noteq> NULL"
  obtains m' buf' where "cyclic_buffer_write m buf src mx = Some (m', buf', n)"
    and "wf_buffer m' buf'" and "buf_block m m' buf"
    and "buffer_pipe m' buf' = pipe_write (read_bytes m src (unat n)) (buffer_pipe m buf)"
proof
  let ?m' = "buf_store m buf (write_idx buf) (read_bytes m src (unat n))" and ?buf' = "advance_write buf n"
  have le: "unat n \<le> unat (available_to_write buf)" by (simp add: n unat_min)
  show "cyclic_buffer_write m buf src mx = Some (?m', ?buf', n)"
    using cyclic_buffer_write_result [OF wf n reg] src by simp
  show "wf_buffer ?m' ?buf'" by (rule wf_buffer_advance(2) [OF wf _ le]) simp
  show "buf_block m ?m' buf" by (rule only_changes_ring_write)
  show "buffer_pipe ?m' ?buf' = pipe_write (read_bytes m src (unat n)) (buffer_pipe m buf)"
    by (rule buffer_pipe_advance_write [OF wf le]) simp
qed

lemma masked_raw_pipe:
  "length ks \<le> unat (available_to_recode buf) \<Longrightarrow>
   masked_raw m buf ks = map2 (XOR) (take (length ks) (raw (buffer_pipe m buf))) ks"
  by (simp add: masked_raw_def buffer_pipe_def take_ring_bytes)

lemma recode_refines:
  assumes wf: "wf_buffer m buf" and n: "n = min (available_to_recode buf) mx"
    and reg: "region_ok m buf mptr (unat n)" and mptr: "mptr \<noteq> NULL"
  obtains m' buf' where "cyclic_buffer_recode_xor b m buf mptr mx = Some (m', buf', n)"
    and "wf_buffer m' buf'" and "buf_block m m' buf"
    and "buffer_pipe m' buf' = pipe_recode (read_bytes m mptr (unat n)) (buffer_pipe m buf)"
proof
  let ?ks = "read_bytes m mptr (unat n)"
  let ?m' = "buf_store m buf (recode_idx buf) (masked_raw m buf ?ks)" and ?buf' = "advance_recode buf n"
  have le: "unat n \<le> unat (available_to_recode buf)" by (simp add: n unat_min)
  show "cyclic_buffer_recode_xor b m buf mptr mx = Some (?m', ?buf', n)"
    using cyclic_buffer_recode_xor_result [OF wf n reg] mptr by (simp add: masked_raw_def)
  show "wf_buffer ?m' ?buf'" by (rule wf_buffer_advance(3) [OF wf _ le]) simp
  show "buf_block m ?m' buf" by (rule only_changes_ring_write)
  show "buffer_pipe ?m' ?buf' = pipe_recode ?ks (buffer_pipe m buf)"
    using buffer_pipe_advance_recode [OF wf le, of "masked_raw m buf ?ks"] le
    by (simp add: pipe_recode_def Let_def masked_raw_pipe)
qed

lemma recode_none_refines:
  assumes wf: "wf_buffer m buf"
  obtains buf' where "cyclic_buffer_recode_none buf = Some (buf', available_to_recode buf)"
    and "wf_buffer m buf'"
    and "buffer_pipe m buf' = (buffer_pipe m buf)\<lparr>ready := ready (buffer_pipe m buf) @ raw (buffer_pipe m buf),
                                                 raw := []\<rparr>"
proof
  let ?n = "available_to_recode buf"
  show "cyclic_buffer_recode_none buf = Some (advance_recode buf ?n, ?n)"
    using wf by (simp add: wf_buffer_def cyclic_buffer_recode_none_result)
  show "wf_buffer m (advance_recode buf ?n)" by (rule wf_buffer_advance(3) [OF wf]) simp_all
  show "buffer_pipe m (advance_recode buf ?n) =
      (buffer_pipe m buf)\<lparr>ready := ready (buffer_pipe m buf) @ raw (buffer_pipe m buf), raw := []\<rparr>"
    using buffer_pipe_skip_recode [OF wf, of ?n] by simp
qed

lemma recode_buf_refines:
  assumes wf: "wf_buffer m buf" and wm: "wf_buffer m mb"
    and dis: "disjoint_ranges (data_ptr mb) (unat (total_size mb)) (data_ptr buf) (unat (total_size buf))"
    and n: "n = min (available_to_recode buf) (available_to_read mb)"
  obtains m' buf' mb' where "cyclic_buffer_recode_xor_buf b m buf mb = Some (m', buf', mb', n)"
    and "wf_buffer m' buf'" and "wf_buffer m' mb'" and "buf_block m m' buf"
    and "buffer_pipe m' mb' = snd (pipe_read (unat n) (buffer_pipe m mb))"
    and "buffer_pipe m' buf' =
      pipe_recode (take (unat n) (ready (buffer_pipe m mb))) (buffer_pipe m buf)"
proof
  let ?ks = "buf_ring m mb (read_idx mb) n"
  let ?m' = "buf_store m buf (recode_idx buf) (masked_raw m buf ?ks)"
  have le: "unat n \<le> unat (available_to_recode buf)" "unat n \<le> unat (available_to_read mb)"
    by (simp_all add: n unat_min)
  show "cyclic_buffer_recode_xor_buf b m buf mb = Some (?m', advance_recode buf n, advance_read mb n, n)"
    by (rule cyclic_buffer_recode_xor_buf_result [OF wf wm dis n])
  show "wf_buffer ?m' (advance_recode buf n)" by (rule wf_buffer_advance(3) [OF wf _ le(1)]) simp
  show "wf_buffer ?m' (advance_read mb n)" by (rule wf_buffer_advance(1) [OF wm _ le(2)]) simp
  show blk: "buf_block m ?m' buf" by (rule only_changes_ring_write)
  have "byte_at ?m' (data_ptr mb + x) = byte_at m (data_ptr mb + x)" if "x < unat (total_size mb)" for x
    using disjoint_rangesD [OF dis, of "data_ptr mb + x"] that
    by (intro byte_at_ring_write_outside) (metis le_add1 nat_add_left_cancel_less not_less)
  then have "ring_bytes ?m' (data_ptr mb) (unat (total_size mb)) i k =
      ring_bytes m (data_ptr mb) (unat (total_size mb)) i k" for i k
    using wm by (intro nth_equalityI) (auto simp: wf_buffer_def buffer_counts_def)
  then have "buffer_pipe ?m' (advance_read mb n) = buffer_pipe m (advance_read mb n)"
    by (simp add: buffer_pipe_def)
  then show "buffer_pipe ?m' (advance_read mb n) = snd (pipe_read (unat n) (buffer_pipe m mb))"
    using buffer_pipe_advance_read [OF wm le(2)] by simp
  have "?ks = take (unat n) (ready (buffer_pipe m mb))"
    using le(2) by (simp add: buffer_pipe_def take_ring_bytes)
  then show "buffer_pipe ?m' (advance_recode buf n) =
      pipe_recode (take (unat n) (ready (buffer_pipe m mb))) (buffer_pipe m buf)"
    using buffer_pipe_advance_recode [OF wf le(1), of "masked_raw m buf ?ks"] le
    by (simp add: pipe_recode_def Let_def masked_raw_pipe)
qed

section \<open>Life cycle\<close>

lemma cyclic_buffer_init_cases:
  "cyclic_buffer_init al m chunks =
     (if chunks \<le> 0 then Some (m, zero_buffer, False)
      else if 2 ^ 19 \<le> chunks then None
      else if 2 ^ 18 < chunks then Some (m, zero_buffer\<lparr>total_size := of_int (4096 * chunks)\<rparr>, False)
      else (case malloc al m (nat (4096 * chunks)) of (p, m') \<Rightarrow>
        if p = NULL then Some (m', zero_buffer\<lparr>total_size := of_int (4096 * chunks)\<rparr>, False)
        else Some (m', zero_buffer\<lparr>total_size := of_int (4096 * chunks), data_ptr := p,
                    available_to_write := of_int (4096 * chunks)\<rparr>, True)))"
proof (cases "0 < chunks \<and> chunks < 2 ^ 19")
  case True
  have u: "unat (of_int (4096 * chunks) :: u32) = nat (4096 * chunks)"
    using True by (intro unat_of_int_small) simp_all
  have gt: "of_int (4096 * chunks) > CYCLIC_BUFFER_MAX_SIZE \<longleftrightarrow> 2 ^ 18 < chunks"
    unfolding word_less_nat_alt u using True by (auto simp: CYCLIC_BUFFER_MAX_SIZE_def)
  show ?thesis
    using True gt u
    by (auto simp: cyclic_buffer_init_def Let_def c_int_mul_def CYCLIC_BUFFER_CHUNK_SIZE_def
        zero_buffer_def split: prod.splits)
next
  case False
  then show ?thesis
    by (auto simp: cyclic_buffer_init_def Let_def c_int_mul_def CYCLIC_BUFFER_CHUNK_SIZE_def)
qed

lemma buffer_counts_fresh:
  assumes "t = of_int (4096 * chunks)" and "0 < chunks" and "chunks \<le> 2 ^ 18"
  shows "buffer_counts (zero_buffer\<lparr>total_size := t, data_ptr := p, available_to_write := t\<rparr>)"
    and "unat t = nat (4096 * chunks)"
proof -
  show u: "unat t = nat (4096 * chunks)"
    unfolding assms(1) using assms(2,3) by (intro unat_of_int_small) simp_all
  then show "buffer_counts (zero_buffer\<lparr>total_size := t, data_ptr := p, available_to_write := t\<rparr>)"
    using assms(2,3) by (simp add: buffer_counts_def zero_buffer_def MAX_TOTAL_def)
qed

lemma zero_buffer_ops:
  "cyclic_buffer_read m zero_buffer p n = Some (m, zero_buffer, 0)"
  "cyclic_buffer_write m zero_buffer p n = Some (m, zero_buffer, 0)"
  "cyclic_buffer_recode_xor b m zero_buffer p n = Some (m, zero_buffer, 0)"
  "cyclic_buffer_recode_none zero_buffer = None"
  by (simp_all add: cyclic_buffer_read_def cyclic_buffer_write_def cyclic_buffer_recode_xor_def
      cyclic_buffer_recode_none_def zero_buffer_def c_mod_def)

section \<open>The buffer as a pipe\<close>

type_synonym buffer_state = "memory \<times> cyclic_buffer"

text \<open>
  The steps of a client: a call with a non-null pointer to a region that is allocated for
  the bytes moved and clear of the data block.  The recoder may use a mask region, a second
  buffer or no mask at all (a mask of zeros).
\<close>

definition buffer_write_step :: "buffer_state \<Rightarrow> u8 list \<Rightarrow> buffer_state \<Rightarrow> bool" where
  "buffer_write_step s bs s' \<longleftrightarrow> (\<exists>src mx n. src \<noteq> NULL \<and>
     region_ok (fst s) (snd s) src (unat (min (available_to_write (snd s)) mx)) \<and>
     cyclic_buffer_write (fst s) (snd s) src mx = Some (fst s', snd s', n) \<and>
     bs = read_bytes (fst s) src (unat n))"

definition buffer_read_step :: "buffer_state \<Rightarrow> u8 list \<Rightarrow> buffer_state \<Rightarrow> bool" where
  "buffer_read_step s bs s' \<longleftrightarrow> (\<exists>dest mx n. dest \<noteq> NULL \<and>
     region_ok (fst s) (snd s) dest (unat (min (available_to_read (snd s)) mx)) \<and>
     cyclic_buffer_read (fst s) (snd s) dest mx = Some (fst s', snd s', n) \<and>
     bs = read_bytes (fst s') dest (unat n))"

definition buffer_recode_step ::
    "scalar_build \<Rightarrow> buffer_state \<Rightarrow> u8 list \<Rightarrow> buffer_state \<Rightarrow> bool" where
  "buffer_recode_step b s bs s' \<longleftrightarrow>
     (\<exists>mptr mx n. mptr \<noteq> NULL \<and>
        region_ok (fst s) (snd s) mptr (unat (min (available_to_recode (snd s)) mx)) \<and>
        cyclic_buffer_recode_xor b (fst s) (snd s) mptr mx = Some (fst s', snd s', n) \<and>
        bs = read_bytes (fst s) mptr (unat n)) \<or>
     (\<exists>mb mb' n. wf_buffer (fst s) mb \<and>
        disjoint_ranges (data_ptr mb) (unat (total_size mb)) (data_ptr (snd s)) (unat (total_size (snd s))) \<and>
        cyclic_buffer_recode_xor_buf b (fst s) (snd s) mb = Some (fst s', snd s', mb', n) \<and>
        bs = take (unat n) (ready (buffer_pipe (fst s) mb))) \<or>
     (\<exists>n. fst s' = fst s \<and> cyclic_buffer_recode_none (snd s) = Some (snd s', n) \<and>
        bs = replicate (unat n) 0)"

text \<open>The rest of the program may change any memory but the data block.\<close>

definition buffer_env_step :: "buffer_state \<Rightarrow> buffer_state \<Rightarrow> bool" where
  "buffer_env_step s s' \<longleftrightarrow> snd s' = snd s \<and>
     valid_range (fst s') (data_ptr (snd s)) (unat (total_size (snd s))) \<and>
     (\<forall>a. data_ptr (snd s) \<le> a \<and> a < data_ptr (snd s) + unat (total_size (snd s)) \<longrightarrow>
        byte_at (fst s') a = byte_at (fst s) a)"

lemma map2_xor_zeros: "length xs = n \<Longrightarrow> map2 (XOR) xs (replicate n 0) = (xs :: u8 list)"
  by (rule nth_equalityI) auto

lemma buffer_write_law:
  assumes wf: "wf_buffer m buf" and step: "buffer_write_step (m, buf) bs (m', buf')"
  shows "wf_buffer m' buf' \<and> ready (buffer_pipe m' buf') = ready (buffer_pipe m buf) \<and>
    raw (buffer_pipe m' buf') = raw (buffer_pipe m buf) @ bs"
proof -
  obtain src mx n where src: "src \<noteq> NULL" "region_ok m buf src (unat (min (available_to_write buf) mx))"
    and call: "cyclic_buffer_write m buf src mx = Some (m', buf', n)" and bs: "bs = read_bytes m src (unat n)"
    using step by (auto simp: buffer_write_step_def)
  show ?thesis
    by (rule write_refines [OF wf refl src(2,1)]) (simp add: call bs pipe_write_def)
qed

lemma buffer_read_law:
  assumes wf: "wf_buffer m buf" and step: "buffer_read_step (m, buf) bs (m', buf')"
  shows "wf_buffer m' buf' \<and> raw (buffer_pipe m' buf') = raw (buffer_pipe m buf) \<and>
    ready (buffer_pipe m buf) = bs @ ready (buffer_pipe m' buf')"
proof -
  obtain dest mx n where d: "dest \<noteq> NULL" "region_ok m buf dest (unat (min (available_to_read buf) mx))"
    and call: "cyclic_buffer_read m buf dest mx = Some (m', buf', n)" and bs: "bs = read_bytes m' dest (unat n)"
    using step by (auto simp: buffer_read_step_def)
  show ?thesis
    by (rule read_refines [OF wf refl d(2,1)]) (simp add: call bs pipe_read_def Let_def)
qed

lemma buffer_recode_law:
  assumes wf: "wf_buffer m buf" and step: "buffer_recode_step b (m, buf) bs (m', buf')"
  shows "wf_buffer m' buf' \<and> length bs \<le> length (raw (buffer_pipe m buf)) \<and>
    ready (buffer_pipe m' buf') = ready (buffer_pipe m buf) @
      map2 (XOR) (take (length bs) (raw (buffer_pipe m buf))) bs \<and>
    raw (buffer_pipe m' buf') = drop (length bs) (raw (buffer_pipe m buf))"
proof -
  consider (region) mptr mx n where "mptr \<noteq> NULL"
      "region_ok m buf mptr (unat (min (available_to_recode buf) mx))"
      "cyclic_buffer_recode_xor b m buf mptr mx = Some (m', buf', n)" "bs = read_bytes m mptr (unat n)"
    | (buffer) mb mb' n where "wf_buffer m mb"
      "disjoint_ranges (data_ptr mb) (unat (total_size mb)) (data_ptr buf) (unat (total_size buf))"
      "cyclic_buffer_recode_xor_buf b m buf mb = Some (m', buf', mb', n)"
      "bs = take (unat n) (ready (buffer_pipe m mb))"
    | (none) n where "m' = m" "cyclic_buffer_recode_none buf = Some (buf', n)" "bs = replicate (unat n) 0"
    using step unfolding buffer_recode_step_def fst_conv snd_conv by blast
  then show ?thesis
  proof cases
    case region
    show ?thesis
      by (rule recode_refines [OF wf refl region(2,1), of b])
         (simp add: region(3,4) pipe_recode_def Let_def unat_min)
  next
    case buffer
    show ?thesis
      by (rule recode_buf_refines [OF wf buffer(1,2) refl, of b])
         (simp add: buffer(3,4) pipe_recode_def Let_def unat_min)
  next
    case none
    show ?thesis
      by (rule recode_none_refines [OF wf]) (use none in \<open>simp add: map2_xor_zeros\<close>)
  qed
qed

lemma buffer_env_law:
  assumes wf: "wf_buffer m buf" and step: "buffer_env_step (m, buf) (m', buf')"
  shows "wf_buffer m' buf' \<and> buffer_pipe m' buf' = buffer_pipe m buf"
proof -
  let ?t = "unat (total_size buf)"
  have t: "0 < ?t" and b: "buf' = buf"
    and same: "\<And>x. x < ?t \<Longrightarrow> byte_at m' (data_ptr buf + x) = byte_at m (data_ptr buf + x)"
    using assms by (auto simp: buffer_env_step_def wf_buffer_def buffer_counts_def)
  then have "ring_bytes m' (data_ptr buf) ?t i k = ring_bytes m (data_ptr buf) ?t i k" for i k
    by (intro nth_equalityI) auto
  then show ?thesis
    using assms by (simp add: buffer_pipe_def wf_buffer_def buffer_env_step_def b)
qed

interpretation buf: xor_pipe "\<lambda>s. wf_buffer (fst s) (snd s)"
    "\<lambda>s. ready (buffer_pipe (fst s) (snd s))" "\<lambda>s. raw (buffer_pipe (fst s) (snd s))"
    buffer_write_step "buffer_recode_step b" buffer_read_step buffer_env_step for b
proof (unfold_locales, goal_cases)
  case (1 s bs s')
  then show ?case using buffer_write_law [of "fst s" "snd s" bs "fst s'" "snd s'"] by simp
next
  case (2 s bs s')
  then show ?case using buffer_recode_law [of "fst s" "snd s" b bs "fst s'" "snd s'"] by simp
next
  case (3 s bs s')
  then show ?case using buffer_read_law [of "fst s" "snd s" bs "fst s'" "snd s'"] by simp
next
  case (4 s s')
  then show ?case using buffer_env_law [of "fst s" "snd s" "fst s'" "snd s'"] by simp
qed

lemma cyclic_buffer_init_True:
  assumes "cyclic_buffer_init al m chunks = Some (m', buf, True)"
  shows "0 < chunks" and "chunks \<le> 2 ^ 18" and "wf_buffer m' buf"
    and "buffer_pipe m' buf = \<lparr>ready = [], raw = [], room = nat (4096 * chunks)\<rparr>"
    and "malloc al m (nat (4096 * chunks)) = (data_ptr buf, m')" and "data_ptr buf \<noteq> NULL"
    and "unat (total_size buf) = nat (4096 * chunks)"
proof -
  let ?t = "of_int (4096 * chunks) :: u32"
  show c: "0 < chunks" "chunks \<le> 2 ^ 18"
    using assms by (auto simp: cyclic_buffer_init_cases split: if_splits prod.splits)
  have buf: "buf = zero_buffer\<lparr>total_size := ?t, data_ptr := data_ptr buf, available_to_write := ?t\<rparr>"
    and mal: "malloc al m (nat (4096 * chunks)) = (data_ptr buf, m')" "data_ptr buf \<noteq> NULL"
    using assms c by (auto simp: cyclic_buffer_init_cases split: if_splits prod.splits)
  show "malloc al m (nat (4096 * chunks)) = (data_ptr buf, m')" "data_ptr buf \<noteq> NULL" by fact+
  have t: "unat ?t = nat (4096 * chunks)" by (rule buffer_counts_fresh(2) [OF refl c])
  show ts: "unat (total_size buf) = nat (4096 * chunks)" by (subst buf) (simp add: t del: of_int_mult)
  have "buffer_counts buf" by (subst buf) (rule buffer_counts_fresh(1) [OF refl c])
  then show "wf_buffer m' buf" using malloc_valid [OF mal] mal(2) by (simp add: wf_buffer_def ts)
  show "buffer_pipe m' buf = \<lparr>ready = [], raw = [], room = nat (4096 * chunks)\<rparr>"
    by (subst buf) (simp add: buffer_pipe_def zero_buffer_def t del: of_int_mult)
qed

lemma cyclic_buffer_init_False:
  assumes "cyclic_buffer_init al m chunks = Some (m', buf, False)"
  shows "m' = m" and "available_to_read buf = 0" and "available_to_write buf = 0"
    and "available_to_recode buf = 0" and "data_ptr buf = NULL"
  using assms malloc_null [of al m "nat (4096 * chunks)"]
  by (auto simp: cyclic_buffer_init_cases zero_buffer_def split: if_splits prod.splits)

section \<open>A sample buffer\<close>

text \<open>One page whose readable bytes wrap round the end of the block.\<close>

definition sample_buffer :: cyclic_buffer where
  "sample_buffer = \<lparr>data_ptr = 4096, total_size = 4096, read_idx = 4090, write_idx = 9,
     recode_idx = 4, available_to_read = 10, available_to_write = 4081, available_to_recode = 5\<rparr>"

definition sample_mask_buffer :: cyclic_buffer where
  "sample_mask_buffer = \<lparr>data_ptr = 16384, total_size = 4096, read_idx = 4094, write_idx = 2,
     recode_idx = 2, available_to_read = 4, available_to_write = 4092, available_to_recode = 0\<rparr>"

lemma sample_buffer_wf: "wf_buffer sample_memory sample_buffer"
  by (simp add: wf_buffer_def buffer_counts_def sample_buffer_def MAX_TOTAL_def)

lemma sample_mask_buffer_wf: "wf_buffer sample_memory sample_mask_buffer"
  by (simp add: wf_buffer_def buffer_counts_def sample_mask_buffer_def MAX_TOTAL_def)

section \<open>Properties\<close>

text \<open>C3: Reading from a well-formed buffer returns the oldest readable bytes, as many as asked
  for and available, copies them to the destination in order even when they wrap round the end
  of the block, frees their room, writes nowhere else and keeps the buffer well formed.\<close>

theorem cyclic_buffer_read_correct:
  assumes "wf_buffer m buf" and "dest \<noteq> NULL" and "n = min (available_to_read buf) mx"
    and "valid_range m dest (unat n)"
    and "disjoint_ranges dest (unat n) (data_ptr buf) (unat (total_size buf))"
  shows "\<exists>m' buf'. cyclic_buffer_read m buf dest mx = Some (m', buf', n) \<and> wf_buffer m' buf' \<and>
    only_changes m m' dest (unat n) \<and>
    pipe_read (unat mx) (buffer_pipe m buf) = (read_bytes m' dest (unat n), buffer_pipe m' buf')"
proof -
  have "region_ok m buf dest (unat n)" using assms(4,5) by (simp add: region_ok_def)
  from read_refines [OF assms(1,3) this assms(2)] show ?thesis by metis
qed

theorem cyclic_buffer_read_correct_witness:
  "\<exists>m' buf'. cyclic_buffer_read sample_memory sample_buffer 1000 8 = Some (m', buf', 8) \<and>
     wf_buffer m' buf' \<and> only_changes sample_memory m' 1000 8"
proof -
  have "\<exists>m' buf'. cyclic_buffer_read sample_memory sample_buffer 1000 8 = Some (m', buf', 8) \<and>
    wf_buffer m' buf' \<and> only_changes sample_memory m' 1000 (unat (8 :: u32)) \<and>
    pipe_read (unat (8 :: u32)) (buffer_pipe sample_memory sample_buffer) =
      (read_bytes m' 1000 (unat (8 :: u32)), buffer_pipe m' buf')"
    by (rule cyclic_buffer_read_correct [OF sample_buffer_wf])
       (simp_all add: sample_buffer_def disjoint_ranges_def)
  then show ?thesis by auto
qed

text \<open>C4: Writing to a well-formed buffer appends the first bytes of the source, as many as
  offered and as fit, to the raw bytes of the pipe, changes nothing outside the data block and
  keeps the buffer well formed.\<close>

theorem cyclic_buffer_write_correct:
  assumes "wf_buffer m buf" and "src \<noteq> NULL" and "n = min (available_to_write buf) mx"
    and "valid_range m src (unat n)"
    and "disjoint_ranges src (unat n) (data_ptr buf) (unat (total_size buf))"
  shows "\<exists>m' buf'. cyclic_buffer_write m buf src mx = Some (m', buf', n) \<and> wf_buffer m' buf' \<and>
    only_changes m m' (data_ptr buf) (unat (total_size buf)) \<and>
    buffer_pipe m' buf' = pipe_write (read_bytes m src (unat n)) (buffer_pipe m buf)"
proof -
  have "region_ok m buf src (unat n)" using assms(4,5) by (simp add: region_ok_def)
  from write_refines [OF assms(1,3) this assms(2)] show ?thesis by metis
qed

theorem cyclic_buffer_write_correct_witness:
  "\<exists>m' buf'. cyclic_buffer_write sample_memory sample_buffer 2000 77 = Some (m', buf', 77) \<and>
     wf_buffer m' buf' \<and>
     buffer_pipe m' buf' = pipe_write (read_bytes sample_memory 2000 77) (buffer_pipe sample_memory sample_buffer)"
proof -
  have "\<exists>m' buf'. cyclic_buffer_write sample_memory sample_buffer 2000 77 = Some (m', buf', 77) \<and>
    wf_buffer m' buf' \<and>
    only_changes sample_memory m' (data_ptr sample_buffer) (unat (total_size sample_buffer)) \<and>
    buffer_pipe m' buf' =
      pipe_write (read_bytes sample_memory 2000 (unat (77 :: u32))) (buffer_pipe sample_memory sample_buffer)"
    by (rule cyclic_buffer_write_correct [OF sample_buffer_wf])
       (simp_all add: sample_buffer_def disjoint_ranges_def)
  then show ?thesis by auto
qed

text \<open>C16: Recoding a well-formed buffer with a mask region moves the oldest raw bytes, as many
  as the mask offers, to the readable end of the pipe, each XORed with its mask byte, in every
  build, changes nothing outside the data block and keeps the buffer well formed.\<close>

theorem cyclic_buffer_recode_xor_correct:
  assumes "wf_buffer m buf" and "mptr \<noteq> NULL" and "n = min (available_to_recode buf) mx"
    and "valid_range m mptr (unat n)"
    and "disjoint_ranges mptr (unat n) (data_ptr buf) (unat (total_size buf))"
  shows "\<exists>m' buf'. cyclic_buffer_recode_xor b m buf mptr mx = Some (m', buf', n) \<and> wf_buffer m' buf' \<and>
    only_changes m m' (data_ptr buf) (unat (total_size buf)) \<and>
    buffer_pipe m' buf' = pipe_recode (read_bytes m mptr (unat n)) (buffer_pipe m buf)"
proof -
  have "region_ok m buf mptr (unat n)" using assms(4,5) by (simp add: region_ok_def)
  from recode_refines [OF assms(1,3) this assms(2), of b] show ?thesis by metis
qed

theorem cyclic_buffer_recode_xor_correct_witness:
  "\<exists>m' buf'. cyclic_buffer_recode_xor SSE2 sample_memory sample_buffer 1001 64 = Some (m', buf', 5) \<and>
     wf_buffer m' buf' \<and>
     buffer_pipe m' buf' = pipe_recode (read_bytes sample_memory 1001 5) (buffer_pipe sample_memory sample_buffer)"
proof -
  have "\<exists>m' buf'. cyclic_buffer_recode_xor SSE2 sample_memory sample_buffer 1001 64 = Some (m', buf', 5) \<and>
    wf_buffer m' buf' \<and>
    only_changes sample_memory m' (data_ptr sample_buffer) (unat (total_size sample_buffer)) \<and>
    buffer_pipe m' buf' =
      pipe_recode (read_bytes sample_memory 1001 (unat (5 :: u32))) (buffer_pipe sample_memory sample_buffer)"
    by (rule cyclic_buffer_recode_xor_correct [OF sample_buffer_wf])
       (simp_all add: sample_buffer_def disjoint_ranges_def)
  then show ?thesis by auto
qed

text \<open>C17: Recoding with a second buffer as the mask uses up the oldest readable bytes of the
  mask buffer, as many as both sides have, wrapping round either block, moves as many raw bytes
  XORed with them to the readable end, and keeps both buffers well formed.\<close>

theorem cyclic_buffer_recode_xor_buf_correct:
  assumes "wf_buffer m buf" and "wf_buffer m mb"
    and "disjoint_ranges (data_ptr mb) (unat (total_size mb)) (data_ptr buf) (unat (total_size buf))"
    and "n = min (available_to_recode buf) (available_to_read mb)"
  shows "\<exists>m' buf' mb'. cyclic_buffer_recode_xor_buf b m buf mb = Some (m', buf', mb', n) \<and>
    wf_buffer m' buf' \<and> wf_buffer m' mb' \<and>
    only_changes m m' (data_ptr buf) (unat (total_size buf)) \<and>
    buffer_pipe m' mb' = snd (pipe_read (unat n) (buffer_pipe m mb)) \<and>
    buffer_pipe m' buf' = pipe_recode (take (unat n) (ready (buffer_pipe m mb))) (buffer_pipe m buf)"
  using recode_buf_refines [OF assms, of b] by metis

theorem cyclic_buffer_recode_xor_buf_correct_witness:
  "\<exists>m' buf' mb'.
     cyclic_buffer_recode_xor_buf AVX2 sample_memory sample_buffer sample_mask_buffer = Some (m', buf', mb', 4) \<and>
     wf_buffer m' buf' \<and> wf_buffer m' mb'"
proof -
  have "disjoint_ranges (data_ptr sample_mask_buffer) (unat (total_size sample_mask_buffer))
      (data_ptr sample_buffer) (unat (total_size sample_buffer))"
    "4 = min (available_to_recode sample_buffer) (available_to_read sample_mask_buffer)"
    by (simp_all add: sample_buffer_def sample_mask_buffer_def disjoint_ranges_def)
  from cyclic_buffer_recode_xor_buf_correct [OF sample_buffer_wf sample_mask_buffer_wf this, of AVX2]
  show ?thesis by metis
qed

text \<open>C33: Recoding without a mask makes every raw byte readable as it is.\<close>

theorem cyclic_buffer_recode_none_correct:
  assumes "wf_buffer m buf"
  shows "\<exists>buf'. cyclic_buffer_recode_none buf = Some (buf', available_to_recode buf) \<and> wf_buffer m buf' \<and>
    buffer_pipe m buf' = (buffer_pipe m buf)\<lparr>ready := ready (buffer_pipe m buf) @ raw (buffer_pipe m buf),
                                             raw := []\<rparr>"
  using recode_none_refines [OF assms] by metis

theorem cyclic_buffer_recode_none_correct_witness:
  "\<exists>buf'. cyclic_buffer_recode_none sample_buffer = Some (buf', 5) \<and> wf_buffer sample_memory buf'"
  using cyclic_buffer_recode_none_correct [OF sample_buffer_wf] by (auto simp: sample_buffer_def)

text \<open>C7: The stream through a freshly initialised buffer.  In any order and size of calls by the
  writer, the recoder (with a mask region, a mask buffer or no mask) and the reader, and whatever
  the rest of the program does outside the data block, the bytes read are the bytes written
  XORed with the mask bytes, position by position, so that XORing them with the mask again gives
  back the written bytes in order: nothing is lost, duplicated or reordered.\<close>

theorem cyclic_buffer_stream:
  assumes "cyclic_buffer_init al m chunks = Some (m0, buf0, True)"
    and "pipe_run buffer_write_step (buffer_recode_step b) buffer_read_step buffer_env_step
           (m0, buf0) (m', buf') written mask_bytes received"
  shows "map2 (XOR) received mask_bytes = take (length received) written \<and>
    received @ ready (buffer_pipe m' buf') = map2 (XOR) written mask_bytes \<and>
    raw (buffer_pipe m' buf') = drop (length mask_bytes) written \<and> wf_buffer m' buf'"
proof -
  have "wf_buffer m0 buf0" "ready (buffer_pipe m0 buf0) = []" "raw (buffer_pipe m0 buf0) = []"
    using cyclic_buffer_init_True(3,4) [OF assms(1)] by simp_all
  then show ?thesis
    using buf.run_decodes [OF assms(2)] buf.run_stream [OF assms(2)] by simp_all
qed

theorem cyclic_buffer_stream_witness:
  "\<exists>m0 buf0 m' buf' written mask_bytes received.
     cyclic_buffer_init bump_allocator sample_memory 1 = Some (m0, buf0, True) \<and>
     pipe_run buffer_write_step (buffer_recode_step AVX2) buffer_read_step buffer_env_step
       (m0, buf0) (m', buf') written mask_bytes received \<and>
     length written = 3 \<and> length mask_bytes = 3 \<and>
     received @ ready (buffer_pipe m' buf') = map2 (XOR) written mask_bytes"
proof -
  obtain m0 buf0 where i: "cyclic_buffer_init bump_allocator sample_memory 1 = Some (m0, buf0, True)"
    by (simp add: cyclic_buffer_init_cases malloc_def Let_def bump_allocator_def sample_memory_def)
  note init = cyclic_buffer_init_True [OF i]
  have valid: "valid_range m0 p n" if "valid_range sample_memory p n" for p n
    using malloc_keeps_valid [OF init(5) that] .
  have dis: "disjoint_ranges p n (data_ptr buf0) (unat (total_size buf0))" if "valid_range sample_memory p n" for p n
    using malloc_disjoint [OF bump_allocator_ok init(5,6) that] init(7) by (simp add: disjoint_ranges_sym)
  have room: "unat (available_to_write buf0) = 4096"
    using init(4) by (simp add: buffer_pipe_def)
  then have mw: "min (available_to_write buf0) 3 = 3" by (simp add: min_def word_le_nat_alt)
  have reg: "region_ok m0 buf0 1000 (unat (3 :: u32))"
    using valid [of 1000 3] dis [of 1000 3] by (simp add: region_ok_def)
  obtain m1 buf1 where w: "cyclic_buffer_write m0 buf0 1000 3 = Some (m1, buf1, 3)"
    and wf1: "wf_buffer m1 buf1" and ch: "only_changes m0 m1 (data_ptr buf0) (unat (total_size buf0))"
    and p1: "buffer_pipe m1 buf1 = pipe_write (read_bytes m0 1000 (unat (3 :: u32))) (buffer_pipe m0 buf0)"
    using write_refines [OF init(3) mw [symmetric] reg] by auto
  have 1: "buffer_write_step (m0, buf0) (read_bytes m0 1000 3) (m1, buf1)"
    unfolding buffer_write_step_def using w reg mw by (intro exI [of _ 1000] exI [of _ 3]) simp
  have "length (raw (buffer_pipe m1 buf1)) = 3" using p1 init(4) by (simp add: pipe_write_def)
  then have ac: "available_to_recode buf1 = 3" by (simp add: word_unat_eq_iff)
  obtain buf2 where r: "cyclic_buffer_recode_none buf1 = Some (buf2, available_to_recode buf1)"
    using recode_none_refines [OF wf1] by auto
  have 2: "buffer_recode_step AVX2 (m1, buf1) (replicate 3 0) (m1, buf2)"
    unfolding buffer_recode_step_def using r ac by simp
  have "pipe_run buffer_write_step (buffer_recode_step AVX2) buffer_read_step buffer_env_step
      (m0, buf0) (m1, buf1) ([] @ read_bytes m0 1000 3) [] []"
    by (rule run_write [where s = "(m0, buf0)"]) (rule run_start, rule 1)
  then have "pipe_run buffer_write_step (buffer_recode_step AVX2) buffer_read_step buffer_env_step
      (m0, buf0) (m1, buf2) ([] @ read_bytes m0 1000 3) ([] @ replicate 3 0) []"
    by (rule run_recode) (rule 2)
  then have run: "pipe_run buffer_write_step (buffer_recode_step AVX2) buffer_read_step buffer_env_step
      (m0, buf0) (m1, buf2) (read_bytes m0 1000 3) (replicate 3 0) []" by simp
  from cyclic_buffer_stream [OF i run] i run show ?thesis by fastforce
qed

text \<open>C34: Initialisation succeeds exactly for 1 to 262144 chunks (1 GiB) when the allocation succeeds.
  A successful call yields a well-formed buffer with an empty pipe and all its room free, in a
  well-formed memory; a failed one leaves the memory alone and a buffer every stage sees as empty.\<close>

theorem cyclic_buffer_init_correct:
  assumes "wf_memory m" and "allocator_ok al" and "cyclic_buffer_init al m chunks = Some (m', buf, ok)"
  shows "(ok \<longleftrightarrow> 0 < chunks \<and> chunks \<le> 2 ^ 18 \<and> al m (nat (4096 * chunks)) \<noteq> NULL) \<and>
    (if ok then wf_memory m' \<and> wf_buffer m' buf \<and>
       buffer_pipe m' buf = \<lparr>ready = [], raw = [], room = nat (4096 * chunks)\<rparr>
     else m' = m \<and> available_to_read buf = 0 \<and> available_to_write buf = 0 \<and> available_to_recode buf = 0)"
proof
  show "ok \<longleftrightarrow> 0 < chunks \<and> chunks \<le> 2 ^ 18 \<and> al m (nat (4096 * chunks)) \<noteq> NULL"
    using assms(3) by (auto simp: cyclic_buffer_init_cases malloc_def Let_def split: if_splits)
  show "if ok then wf_memory m' \<and> wf_buffer m' buf \<and>
           buffer_pipe m' buf = \<lparr>ready = [], raw = [], room = nat (4096 * chunks)\<rparr>
         else m' = m \<and> available_to_read buf = 0 \<and> available_to_write buf = 0 \<and> available_to_recode buf = 0"
  proof (cases ok)
    case True
    then have i: "cyclic_buffer_init al m chunks = Some (m', buf, True)" using assms(3) by simp
    show ?thesis
      using True cyclic_buffer_init_True [OF i] malloc_wf [OF assms(1,2)] by simp
  next
    case False
    then have "cyclic_buffer_init al m chunks = Some (m', buf, False)" using assms(3) by simp
    from cyclic_buffer_init_False [OF this] False show ?thesis by simp
  qed
qed

theorem cyclic_buffer_init_correct_witness:
  "\<exists>m' buf. cyclic_buffer_init bump_allocator sample_memory 2 = Some (m', buf, True) \<and>
     wf_memory m' \<and> wf_buffer m' buf"
proof -
  obtain m' buf where i: "cyclic_buffer_init bump_allocator sample_memory 2 = Some (m', buf, True)"
    by (simp add: cyclic_buffer_init_cases malloc_def Let_def bump_allocator_def sample_memory_def)
  from cyclic_buffer_init_correct [OF sample_memory_wf bump_allocator_ok i] i show ?thesis by auto
qed

text \<open>The size check comes after the multiplication: from 524288 chunks on the product
  overflows the type \<open>int\<close>, so the call is undefined instead of being refused.\<close>

theorem cyclic_buffer_init_undefined:
  "cyclic_buffer_init al m chunks = None \<longleftrightarrow> 2 ^ 19 \<le> chunks"
  by (auto simp: cyclic_buffer_init_cases split: prod.splits if_splits)

text \<open>C35: Destroying an initialised buffer gives its block back and no other, and zeroes the
  struct; from then on reading, writing and recoding with a mask are defined and move nothing,
  while recoding without a mask divides by the zero size.\<close>

theorem cyclic_buffer_destroy_correct:
  assumes "wf_memory m" and "allocator_ok al" and "cyclic_buffer_init al m chunks = Some (m', buf, True)"
  shows "\<exists>m''. cyclic_buffer_destroy m' buf = Some (m'', zero_buffer) \<and> blocks m'' = blocks m \<and>
    cyclic_buffer_read m'' zero_buffer p n = Some (m'', zero_buffer, 0) \<and>
    cyclic_buffer_write m'' zero_buffer p n = Some (m'', zero_buffer, 0) \<and>
    cyclic_buffer_recode_xor b m'' zero_buffer p n = Some (m'', zero_buffer, 0) \<and>
    cyclic_buffer_recode_none zero_buffer = None"
proof -
  note i = cyclic_buffer_init_True [OF assms(3)]
  have "blocks m' = (data_ptr buf, nat (4096 * chunks)) # blocks m"
    using blocks_malloc [OF i(5,6)] by simp
  moreover have "fresh_range m (data_ptr buf) (nat (4096 * chunks))"
    using assms(2) [unfolded allocator_ok_def, rule_format, of m "nat (4096 * chunks)"] i(5,6)
    by (auto simp: malloc_def Let_def split: if_splits)
  then have "filter (\<lambda>(b, l). b \<noteq> data_ptr buf) (blocks m) = blocks m"
    by (auto simp: fresh_range_def list_all_iff intro!: filter_True)
  ultimately show ?thesis
    using i(6) by (simp add: cyclic_buffer_destroy_def free_def zero_buffer_ops)
qed

theorem cyclic_buffer_destroy_correct_witness:
  "\<exists>m' buf m''. cyclic_buffer_init bump_allocator sample_memory 2 = Some (m', buf, True) \<and>
     cyclic_buffer_destroy m' buf = Some (m'', zero_buffer) \<and> blocks m'' = blocks sample_memory"
proof -
  obtain m' buf where i: "cyclic_buffer_init bump_allocator sample_memory 2 = Some (m', buf, True)"
    by (simp add: cyclic_buffer_init_cases malloc_def Let_def bump_allocator_def sample_memory_def)
  from cyclic_buffer_destroy_correct [OF sample_memory_wf bump_allocator_ok i, of NULL 0 AVX2] i show ?thesis by auto
qed

end
