(* ===== verification/Fifo.thy ===== *)
theory Fifo
  imports Main
begin

text \<open>
  The contract of a first-in first-out queue, as a locale over step relations: steps that
  append an element, steps that take the oldest element, and all other steps.  What a run
  delivers is proved once; the sequential queue operations and the interleaved queue
  machine both interpret the locale.
\<close>

inductive fifo_run ::
    "('s \<Rightarrow> 'e \<Rightarrow> 's \<Rightarrow> bool) \<Rightarrow> ('s \<Rightarrow> 'e \<Rightarrow> 's \<Rightarrow> bool) \<Rightarrow> ('s \<Rightarrow> 's \<Rightarrow> bool)
      \<Rightarrow> 's \<Rightarrow> 's \<Rightarrow> 'e list \<Rightarrow> 'e list \<Rightarrow> bool"
  for enq deq other s0 where
  fifo_start: "fifo_run enq deq other s0 s0 [] []"
| fifo_enq: "fifo_run enq deq other s0 s xs ys \<Longrightarrow> enq s x s' \<Longrightarrow>
    fifo_run enq deq other s0 s' (xs @ [x]) ys"
| fifo_deq: "fifo_run enq deq other s0 s xs ys \<Longrightarrow> deq s y s' \<Longrightarrow>
    fifo_run enq deq other s0 s' xs (ys @ [y])"
| fifo_other: "fifo_run enq deq other s0 s xs ys \<Longrightarrow> other s s' \<Longrightarrow>
    fifo_run enq deq other s0 s' xs ys"

locale fifo =
  fixes inv :: "'s \<Rightarrow> bool"
    and elems :: "'s \<Rightarrow> 'e list"
    and enq :: "'s \<Rightarrow> 'e \<Rightarrow> 's \<Rightarrow> bool"
    and deq :: "'s \<Rightarrow> 'e \<Rightarrow> 's \<Rightarrow> bool"
    and other :: "'s \<Rightarrow> 's \<Rightarrow> bool"
  assumes enq_law: "inv s \<Longrightarrow> enq s x s' \<Longrightarrow> inv s' \<and> elems s' = elems s @ [x]"
    and deq_law: "inv s \<Longrightarrow> deq s y s' \<Longrightarrow> inv s' \<and> elems s = y # elems s'"
    and other_law: "inv s \<Longrightarrow> other s s' \<Longrightarrow> inv s' \<and> elems s' = elems s"
begin

text \<open>The elements taken so far, followed by those still queued, are the start's elements
  followed by those appended, in order.\<close>

lemma run_fifo:
  assumes "fifo_run enq deq other s0 s xs ys" and "inv s0"
  shows "inv s \<and> elems s0 @ xs = ys @ elems s"
  using assms(1)
proof (induction rule: fifo_run.induct)
  case fifo_start
  then show ?case using assms(2) by simp
next
  case (fifo_enq s xs ys x s')
  then show ?case using enq_law [of s x s'] by auto
next
  case (fifo_deq s xs ys y s')
  then show ?case using deq_law [of s y s'] by auto
next
  case (fifo_other s xs ys s')
  then show ?case using other_law [of s s'] by auto
qed

lemma run_prefix:
  assumes "fifo_run enq deq other s0 s xs ys" and "inv s0" and "elems s0 = []"
  shows "ys = take (length ys) xs" and "length ys \<le> length xs"
  using run_fifo [OF assms(1,2)] assms(3) by simp_all

end

end
