(* ===== verification/Cyclic_Queue.thy ===== *)
theory Cyclic_Queue
  imports Ring Fifo
begin

text \<open>
  The growing element queue of \<open>src/cyclic_queue.c\<close>, translated for a single caller: a lock
  loop whose index is already locked never ends and is \<open>None\<close>.  The theory of the
  interleaved queue runs the same code step by step for any number of threads.  The queue
  is shown to refine the list of its elements.
\<close>

section \<open>The struct and its life cycle\<close>

record cyclic_queue =
  queue_data :: ptr
  element_size :: u32
  capacity :: u32
  max_capacity :: u32
  queue_size :: u32
  take_idx :: u32
  push_idx :: u32

definition CYCLIC_QUEUE_MIN_CAPACITY :: u32 where
  "CYCLIC_QUEUE_MIN_CAPACITY = 0x40"

definition CYCLIC_QUEUE_MAX_CAPACITY :: u32 where
  "CYCLIC_QUEUE_MAX_CAPACITY = 0x40000"

definition CYCLIC_QUEUE_MAX_ELEMENT_SIZE :: u32 where
  "CYCLIC_QUEUE_MAX_ELEMENT_SIZE = 0x400"

definition UINT32_MAX :: u32 where
  "UINT32_MAX = 0xFFFFFFFF"

definition zero_queue :: cyclic_queue where
  "zero_queue = \<lparr>queue_data = NULL, element_size = 0, capacity = 0, max_capacity = 0,
     queue_size = 0, take_idx = 0, push_idx = 0\<rparr>"

definition cyclic_queue_init ::
    "allocator \<Rightarrow> memory \<Rightarrow> u32 \<Rightarrow> u32 \<Rightarrow> memory \<times> cyclic_queue \<times> bool" where
  "cyclic_queue_init al m elem_size initial_capacity =
     (let initial_capacity =
            (if initial_capacity < CYCLIC_QUEUE_MIN_CAPACITY then CYCLIC_QUEUE_MIN_CAPACITY
             else initial_capacity)
      in if initial_capacity > CYCLIC_QUEUE_MAX_CAPACITY then (m, zero_queue, False)
         else if elem_size > CYCLIC_QUEUE_MAX_ELEMENT_SIZE then (m, zero_queue, False)
         else let (p, m) = malloc al m (unat (initial_capacity * elem_size)) in
           if p = NULL then (m, zero_queue, False)
           else (m, zero_queue\<lparr>queue_data := p, element_size := elem_size,
                    capacity := initial_capacity, max_capacity := CYCLIC_QUEUE_MAX_CAPACITY\<rparr>, True))"

definition cyclic_queue_destroy :: "memory \<Rightarrow> cyclic_queue \<Rightarrow> (memory \<times> cyclic_queue) option" where
  "cyclic_queue_destroy m q = do {
     m \<leftarrow> (if queue_data q \<noteq> NULL then free m (queue_data q) else Some m);
     Some (m, zero_queue)
   }"

section \<open>The operations\<close>

text \<open>\<open>__LOCK_IDX\<close> for a single caller: the index's value, or an endless loop.\<close>

definition lock_idx :: "u32 \<Rightarrow> u32 option" where
  "lock_idx idx = (if idx = UINT32_MAX then None else Some idx)"

text \<open>The address of an element: \<open>(uint8_t*)data_ptr + idx * elem_size\<close>.\<close>

definition element_ptr :: "cyclic_queue \<Rightarrow> u32 \<Rightarrow> ptr" where
  "element_ptr q idx = queue_data q + unat (idx * element_size q)"

text \<open>
  The re-allocation block of \<open>cyclic_queue_push\<close>: a new region, the elements moved to its
  start in queue order, the old region freed.  The inner \<open>None\<close> is a failed allocation.
\<close>

definition queue_grow ::
    "allocator \<Rightarrow> memory \<Rightarrow> cyclic_queue \<Rightarrow> u32 \<Rightarrow> u32 \<Rightarrow> u32
      \<Rightarrow> (memory \<times> cyclic_queue) option option" where
  "queue_grow al m q take_i sz new_capacity =
     (let elem_size = element_size q;
          (new_data_ptr, m) = malloc al m (unat (elem_size * new_capacity))
      in if new_data_ptr = NULL then Some None
         else do {
           m \<leftarrow> (let until_idx = take_i + sz in
             if until_idx > capacity q then
               let size_till_end = capacity q - take_i in do {
                 m \<leftarrow> memcpy m new_data_ptr (element_ptr q take_i) (unat (size_till_end * elem_size));
                 memcpy m (new_data_ptr + unat (size_till_end * elem_size)) (queue_data q)
                   (unat ((sz - size_till_end) * elem_size))
               }
             else memcpy m new_data_ptr (element_ptr q take_i) (unat (sz * elem_size)));
           m \<leftarrow> free m (queue_data q);
           Some (Some (m, q\<lparr>queue_data := new_data_ptr, capacity := new_capacity\<rparr>))
         })"

text \<open>
  The part of \<open>cyclic_queue_push\<close> that runs when the queue looked full: lock the take
  index, check again, grow.  The result says where to push, what to put back into the take
  index and whether to go on.
\<close>

definition push_when_full ::
    "allocator \<Rightarrow> memory \<Rightarrow> cyclic_queue \<Rightarrow> u32 \<Rightarrow> u32
      \<Rightarrow> (memory \<times> cyclic_queue \<times> u32 \<times> u32 \<times> bool) option" where
  "push_when_full al m q push_i take_i =
     (let sz = queue_size q in
      if sz = capacity q then
        let new_capacity = min (capacity q * 2) (max_capacity q) in
        if new_capacity = capacity q then Some (m, q, push_i, take_i, False)
        else do {
          grown \<leftarrow> queue_grow al m q take_i sz new_capacity;
          case grown of
            None \<Rightarrow> Some (m, q, push_i, take_i, False)
          | Some (m, q) \<Rightarrow> Some (m, q, sz, 0, True)
        }
      else Some (m, q, push_i, take_i, True))"

definition store_element ::
    "memory \<Rightarrow> cyclic_queue \<Rightarrow> u32 \<Rightarrow> ptr \<Rightarrow> (memory \<times> u32) option" where
  "store_element m q push_i element = do {
     m \<leftarrow> memcpy m (element_ptr q push_i) element (unat (element_size q));
     push_i \<leftarrow> c_mod (push_i + 1) (capacity q);
     Some (m, push_i)
   }"

definition fetch_element ::
    "memory \<Rightarrow> cyclic_queue \<Rightarrow> u32 \<Rightarrow> ptr \<Rightarrow> (memory \<times> u32) option" where
  "fetch_element m q take_i element = do {
     m \<leftarrow> memcpy m element (element_ptr q take_i) (unat (element_size q));
     take_i \<leftarrow> c_mod (take_i + 1) (capacity q);
     Some (m, take_i)
   }"

definition cyclic_queue_push ::
    "allocator \<Rightarrow> memory \<Rightarrow> cyclic_queue \<Rightarrow> ptr \<Rightarrow> (memory \<times> cyclic_queue \<times> bool) option" where
  "cyclic_queue_push al m q element = do {
     push_i \<leftarrow> lock_idx (push_idx q);
     let q = q\<lparr>push_idx := UINT32_MAX\<rparr>;
     (m, q, push_i, take_i, go) \<leftarrow>
       (if queue_size q = capacity q then do {
          take_i \<leftarrow> lock_idx (take_idx q);
          push_when_full al m (q\<lparr>take_idx := UINT32_MAX\<rparr>) push_i take_i
        }
        else Some (m, q, push_i, UINT32_MAX, True));
     (m, q, push_i) \<leftarrow>
       (if go then do {
          (m, push_i) \<leftarrow> store_element m q push_i element;
          Some (m, q\<lparr>queue_size := queue_size q + 1\<rparr>, push_i)
        }
        else Some (m, q, push_i));
     let q = (if take_i \<noteq> UINT32_MAX then q\<lparr>take_idx := take_i\<rparr> else q);
     Some (m, q\<lparr>push_idx := push_i\<rparr>, go)
   }"

definition cyclic_queue_take ::
    "memory \<Rightarrow> cyclic_queue \<Rightarrow> ptr \<Rightarrow> (memory \<times> cyclic_queue \<times> bool) option" where
  "cyclic_queue_take m q element =
     (if queue_size q = 0 then Some (m, q, False)
      else do {
        take_i \<leftarrow> lock_idx (take_idx q);
        let q = q\<lparr>take_idx := UINT32_MAX\<rparr>;
        (m, q, take_i, result) \<leftarrow>
          (if queue_size q = 0 then Some (m, q, take_i, False)
           else do {
             (m, take_i) \<leftarrow> fetch_element m q take_i element;
             Some (m, q\<lparr>queue_size := queue_size q - 1\<rparr>, take_i, True)
           });
        Some (m, q\<lparr>take_idx := take_i\<rparr>, result)
      })"

section \<open>Well-formed queues\<close>

text \<open>The parts of the struct that only growing changes: sizes in range, and the data block
  is an allocated object of exactly \<open>capacity\<close> elements.\<close>

definition queue_shape :: "cyclic_queue \<Rightarrow> bool" where
  "queue_shape q \<longleftrightarrow>
     0 < unat (capacity q) \<and> unat (capacity q) \<le> unat (max_capacity q) \<and>
     unat (max_capacity q) \<le> 2 ^ 18 \<and> 0 < unat (element_size q) \<and> unat (element_size q) \<le> 2 ^ 10"

abbreviation (input) block_size :: "cyclic_queue \<Rightarrow> nat" where
  "block_size q \<equiv> unat (capacity q) * unat (element_size q)"

definition queue_block :: "memory \<Rightarrow> cyclic_queue \<Rightarrow> bool" where
  "queue_block m q \<longleftrightarrow> queue_data q \<noteq> NULL \<and> (queue_data q, block_size q) \<in> set (blocks m)"

definition queue_idx :: "cyclic_queue \<Rightarrow> bool" where
  "queue_idx q \<longleftrightarrow> unat (queue_size q) \<le> unat (capacity q) \<and> unat (take_idx q) < unat (capacity q) \<and>
     unat (push_idx q) = (unat (take_idx q) + unat (queue_size q)) mod unat (capacity q)"

definition wf_queue :: "memory \<Rightarrow> cyclic_queue \<Rightarrow> bool" where
  "wf_queue m q \<longleftrightarrow> wf_memory m \<and> queue_shape q \<and> queue_block m q \<and> queue_idx q"

definition queue_elems :: "memory \<Rightarrow> cyclic_queue \<Rightarrow> u8 list list" where
  "queue_elems m q = slots m (queue_data q) (unat (element_size q)) (unat (capacity q))
     (unat (take_idx q)) (unat (queue_size q))"

text \<open>A caller's element: allocated and clear of the data block.\<close>

definition element_ok :: "memory \<Rightarrow> cyclic_queue \<Rightarrow> ptr \<Rightarrow> bool" where
  "element_ok m q e \<longleftrightarrow> valid_range m e (unat (element_size q)) \<and>
     disjoint_ranges e (unat (element_size q)) (queue_data q) (block_size q)"

lemma queue_shape_bounds:
  assumes "queue_shape q"
  shows "0 < unat (capacity q)" and "unat (capacity q) \<le> 2 ^ 18"
    and "0 < unat (element_size q)" and "unat (element_size q) \<le> 2 ^ 10" and "capacity q \<noteq> 0"
  using assms by (auto simp: queue_shape_def)

lemma unat_mult_small:
  assumes "unat a \<le> 2 ^ 19" and "unat b \<le> 2 ^ 10"
  shows "unat (a * b :: u32) = unat a * unat b"
proof -
  have "unat a * unat b \<le> 2 ^ 19 * 2 ^ 10" using assms by (rule mult_le_mono)
  then have "unat a * unat b < 2 ^ LENGTH(32)" by simp
  then show ?thesis by (simp add: unat_word_ariths)
qed

lemma element_ptr_eq:
  assumes "queue_shape q" and "unat idx \<le> 2 ^ 18"
  shows "element_ptr q idx = queue_data q + unat idx * unat (element_size q)"
  using unat_mult_small [of idx "element_size q"] queue_shape_bounds [OF assms(1)] assms(2)
  by (simp add: element_ptr_def)

lemma slot_valid:
  assumes "queue_shape q" and "queue_block m q" and "i < unat (capacity q)"
  shows "valid_range m (queue_data q + i * unat (element_size q)) (unat (element_size q))"
  using block_valid_range [of "queue_data q" "block_size q" m] assms(2)
    slot_bounds [OF assms(3), of "queue_data q" "unat (element_size q)"]
  by (auto simp: queue_block_def intro: valid_range_sub)

lemma element_slot_disjoint:
  assumes "element_ok m q e" and "i < unat (capacity q)"
  shows "disjoint_ranges e (unat (element_size q))
    (queue_data q + i * unat (element_size q)) (unat (element_size q))"
  using assms slot_bounds [OF assms(2), of "queue_data q" "unat (element_size q)"]
  by (auto simp: element_ok_def disjoint_ranges_def)

definition succ_idx :: "cyclic_queue \<Rightarrow> u32 \<Rightarrow> u32" where
  "succ_idx q idx = (idx + 1) mod capacity q"

lemma unat_succ_idx:
  assumes "queue_shape q" and "unat idx < unat (capacity q)"
  shows "unat (succ_idx q idx) = (unat idx + 1) mod unat (capacity q)"
proof -
  have "unat (idx + 1) = unat idx + 1"
    using assms queue_shape_bounds [OF assms(1)] by (subst unat_add_no_wrap) auto
  then show ?thesis by (simp add: succ_idx_def unat_mod)
qed

lemma store_element_result:
  assumes "queue_shape q" and "queue_block m q" and "element_ok m q e" and "unat idx < unat (capacity q)"
  shows "store_element m q idx e =
    Some (write_bytes m (queue_data q + unat idx * unat (element_size q))
            (read_bytes m e (unat (element_size q))), succ_idx q idx)"
proof -
  have "unat idx \<le> 2 ^ 18" using assms(4) queue_shape_bounds [OF assms(1)] by simp
  then show ?thesis
    using slot_valid [OF assms(1,2,4)] element_slot_disjoint [OF assms(3,4)] assms(3)
      queue_shape_bounds(5) [OF assms(1)]
    by (simp add: store_element_def element_ptr_eq [OF assms(1)] mem_simps element_ok_def
        disjoint_ranges_sym c_mod_Some succ_idx_def)
qed

lemma fetch_element_result:
  assumes "queue_shape q" and "queue_block m q" and "element_ok m q e" and "unat idx < unat (capacity q)"
  shows "fetch_element m q idx e =
    Some (write_bytes m e (slot m (queue_data q) (unat (element_size q)) (unat idx)), succ_idx q idx)"
proof -
  have "unat idx \<le> 2 ^ 18" using assms(4) queue_shape_bounds [OF assms(1)] by simp
  then show ?thesis
    using slot_valid [OF assms(1,2,4)] element_slot_disjoint [OF assms(3,4)] assms(3)
      queue_shape_bounds(5) [OF assms(1)]
    by (simp add: fetch_element_def element_ptr_eq [OF assms(1)] mem_simps element_ok_def slot_def
        c_mod_Some succ_idx_def)
qed

section \<open>Growing\<close>

lemma queue_grow_fails:
  "al m (unat (element_size q * new_capacity)) = NULL \<Longrightarrow> queue_grow al m q t sz new_capacity = Some None"
  by (simp add: queue_grow_def malloc_def Let_def)

lemma queue_grow_result:
  assumes wf: "wf_memory m" and al: "allocator_ok al" and sh: "queue_shape q" and blk: "queue_block m q"
    and t: "unat t < unat (capacity q)" and sz: "unat sz \<le> unat (capacity q)"
    and nc: "unat (capacity q) \<le> unat nc" "unat nc \<le> 2 ^ 18"
    and p: "al m (unat (element_size q * nc)) = p" "p \<noteq> NULL"
  obtains m' where "queue_grow al m q t sz nc = Some (Some (m', q\<lparr>queue_data := p, capacity := nc\<rparr>))"
    and "byte_at m' = byte_at (write_bytes m p (ring_bytes m (queue_data q) (block_size q)
           (unat t * unat (element_size q)) (unat sz * unat (element_size q))))"
    and "blocks m' = (p, unat nc * unat (element_size q)) #
           filter (\<lambda>(b, l). b \<noteq> queue_data q) (blocks m)"
    and "fresh_range m p (unat nc * unat (element_size q))"
proof -
  let ?es = "unat (element_size q)" and ?cap = "unat (capacity q)" and ?d = "queue_data q"
  note b = queue_shape_bounds [OF sh]
  have un: "unat (element_size q * nc) = unat nc * ?es"
    using unat_mult_small [of nc "element_size q"] nc b by (simp add: mult.commute)
  define m1 where "m1 = m\<lparr>blocks := (p, unat nc * ?es) # blocks m\<rparr>"
  have mal: "malloc al m (unat (element_size q * nc)) = (p, m1)"
    using p by (simp add: malloc_def Let_def m1_def un)
  have fr: "fresh_range m p (unat nc * ?es)"
    using al [unfolded allocator_ok_def, rule_format, of m "unat nc * ?es"] p by (simp add: un)
  have db: "(?d, ?cap * ?es) \<in> set (blocks m)" "?d \<noteq> NULL" using blk by (auto simp: queue_block_def)
  have pd: "p \<noteq> ?d" "disjoint_ranges p (unat nc * ?es) ?d (?cap * ?es)"
    using fr db by (auto simp: fresh_range_def list_all_iff)
  have le: "unat sz * ?es \<le> ?cap * ?es" "?cap * ?es \<le> unat nc * ?es"
    using sz nc by (simp_all add: mult_le_mono1)
  have vd: "valid_range m1 ?d (?cap * ?es)" and vp: "valid_range m1 p (unat nc * ?es)"
    using db by (auto simp: m1_def intro!: block_valid_range)
  have ss: "unat sz * ?es \<le> unat nc * ?es" using le by (rule order_trans)
  have "disjoint_ranges p (unat sz * ?es) ?d (?cap * ?es)"
    by (rule disjoint_ranges_sub [OF pd(2)]) (simp_all only: order_refl add_le_cancel_left ss)
  then have ok: "ring_ok m1 ?d (?cap * ?es) p (unat sz * ?es)"
    using vd valid_range_prefix [OF vp ss] le(1) by (simp only: ring_ok_def)
  define m2 where "m2 = write_bytes m1 p (ring_bytes m1 ?d (?cap * ?es) (unat t * ?es) (unat sz * ?es))"
  have tes: "unat t * ?es < ?cap * ?es" using t b by simp
  have uts: "unat (t + sz) = unat t + unat sz" using t sz b by (intro unat_add_no_wrap) simp
  have gt: "t + sz > capacity q \<longleftrightarrow> ?cap * ?es < unat t * ?es + unat sz * ?es"
    using b(3) by (simp add: word_less_nat_alt uts flip: add_mult_distrib)
  have pt: "element_ptr q t = ?d + unat t * ?es" using element_ptr_eq [OF sh] t b by simp
  have copy: "(if t + sz > capacity q then
        do { m \<leftarrow> memcpy m1 p (element_ptr q t) (unat ((capacity q - t) * element_size q));
             memcpy m (p + unat ((capacity q - t) * element_size q)) ?d
               (unat ((sz - (capacity q - t)) * element_size q)) }
      else memcpy m1 p (element_ptr q t) (unat (sz * element_size q))) = Some m2"
  proof (cases "t + sz > capacity q")
    case True
    have e: "unat (capacity q - t) = ?cap - unat t" using t by (intro unat_sub_no_wrap) simp
    have "?cap < unat t + unat sz" using True by (simp add: word_less_nat_alt uts)
    then have r: "unat (sz - (capacity q - t)) = unat sz - (?cap - unat t)"
      by (subst unat_sub_no_wrap) (auto simp: e)
    have 1: "unat ((capacity q - t) * element_size q) = ?cap * ?es - unat t * ?es"
      using e b by (subst unat_mult_small) (auto simp: diff_mult_distrib)
    have 2: "unat ((sz - (capacity q - t)) * element_size q) = unat sz * ?es - (?cap * ?es - unat t * ?es)"
      using r b sz by (subst unat_mult_small) (auto simp: diff_mult_distrib)
    have "?cap * ?es \<le> unat t * ?es + unat sz * ?es" using True gt by simp
    from memcpy_out_wrap [OF ok tes this] show ?thesis
      using True by (simp add: 1 2 pt m2_def)
  next
    case False
    have 1: "unat (sz * element_size q) = unat sz * ?es" using sz b by (intro unat_mult_small) auto
    have "unat t * ?es + unat sz * ?es \<le> ?cap * ?es" using False gt by simp
    from memcpy_out_linear [OF ok this] show ?thesis
      using False by (simp add: 1 pt m2_def)
  qed
  define m3 where "m3 = m2\<lparr>blocks := filter (\<lambda>(b, l). b \<noteq> ?d) (blocks m2)\<rparr>"
  have "(?d, ?cap * ?es) \<in> set (blocks m2)" using db by (simp add: m2_def m1_def)
  then have "free m2 ?d = Some m3" by (simp add: free_block m3_def)
  then have "queue_grow al m q t sz nc = Some (Some (m3, q\<lparr>queue_data := p, capacity := nc\<rparr>))"
    unfolding queue_grow_def mal Let_def prod.case copy using p(2) by simp
  moreover have "byte_at m3 = byte_at (write_bytes m p (ring_bytes m ?d (?cap * ?es) (unat t * ?es) (unat sz * ?es)))"
    by (simp add: m3_def m2_def m1_def write_bytes_def ring_bytes_def fun_eq_iff)
  moreover have "blocks m3 = (p, unat nc * ?es) # filter (\<lambda>(b, l). b \<noteq> ?d) (blocks m)"
    using pd(1) by (simp add: m3_def m2_def m1_def)
  ultimately show thesis using that fr by blast
qed

text \<open>Growing keeps the elements in order and every region clear of the data block.\<close>

lemma queue_grow_spec:
  assumes wf: "wf_memory m" and al: "allocator_ok al" and sh: "queue_shape q" and blk: "queue_block m q"
    and t: "unat t < unat (capacity q)" and sz: "unat sz \<le> unat (capacity q)"
    and nc: "unat (capacity q) \<le> unat nc" "unat nc \<le> unat (max_capacity q)"
    and p: "al m (unat (element_size q * nc)) \<noteq> NULL"
  obtains m' q' where "queue_grow al m q t sz nc = Some (Some (m', q'))"
    and "q' = q\<lparr>queue_data := al m (unat (element_size q * nc)), capacity := nc\<rparr>"
    and "wf_memory m'" and "queue_shape q'" and "queue_block m' q'"
    and "slots m' (queue_data q') (unat (element_size q)) (unat nc) 0 (unat sz) =
      slots m (queue_data q) (unat (element_size q)) (unat (capacity q)) (unat t) (unat sz)"
    and "\<And>e. element_ok m q e \<Longrightarrow> element_ok m' q' e \<and>
      read_bytes m' e (unat (element_size q)) = read_bytes m e (unat (element_size q))"
proof -
  let ?es = "unat (element_size q)" and ?p = "al m (unat (element_size q * nc))"
  let ?q = "q\<lparr>queue_data := ?p, capacity := nc\<rparr>"
  have "unat nc \<le> 2 ^ 18" using nc sh by (simp add: queue_shape_def)
  from queue_grow_result [OF wf al sh blk t sz nc(1) this refl p] obtain m' where
    grow: "queue_grow al m q t sz nc = Some (Some (m', ?q))"
    and bytes: "byte_at m' = byte_at (write_bytes m ?p (ring_bytes m (queue_data q) (block_size q) (unat t * ?es) (unat sz * ?es)))"
    and blks: "blocks m' = (?p, unat nc * ?es) # filter (\<lambda>(b, l). b \<noteq> queue_data q) (blocks m)"
    and fresh: "fresh_range m ?p (unat nc * ?es)" .
  define m2 where "m2 = m\<lparr>blocks := filter (\<lambda>(b, l). b \<noteq> queue_data q) (blocks m)\<rparr>"
  have m2: "wf_memory m2" "fresh_range m2 ?p (unat nc * ?es)"
    using wf fresh by (auto simp: m2_def fresh_range_def list_all_iff intro: wf_memory_filter)
  have same: "blocks m' = blocks (m2\<lparr>blocks := (?p, unat nc * ?es) # blocks m2\<rparr>)"
    by (simp add: blks m2_def)
  have wf': "wf_memory m'" using wf_memory_Cons [OF m2] by (simp only: wf_memory_def same)
  have sh': "queue_shape ?q" using sh nc by (simp add: queue_shape_def)
  have blk': "queue_block m' ?q" using p blks by (simp add: queue_block_def)
  have cap: "0 < unat (capacity q)" and es: "0 < ?es" using queue_shape_bounds [OF sh] by auto
  have sl: "slots m' ?p ?es (unat nc) 0 (unat sz) = slots m (queue_data q) ?es (unat (capacity q)) (unat t) (unat sz)"
    using slots_of_copy [OF cap _ bytes] sz nc by simp
  have keep: "element_ok m' ?q e \<and> read_bytes m' e ?es = read_bytes m e ?es" if e: "element_ok m q e" for e
  proof -
    have v: "valid_range m e ?es" and d: "disjoint_ranges e ?es (queue_data q) (block_size q)"
      using e by (auto simp: element_ok_def)
    have "valid_range m2 e ?es"
      unfolding m2_def using blk by (intro free_keeps_valid [OF wf _ v es d]) (simp add: queue_block_def)
    then have "valid_range m' e ?es" by (simp add: valid_range_def blks m2_def)
    moreover have dis: "disjoint_ranges ?p (unat nc * ?es) e ?es"
      using fresh v by (fastforce simp: fresh_range_def valid_range_def list_ex_iff list_all_iff disjoint_ranges_def)
    moreover have "read_bytes m' e ?es = read_bytes m e ?es"
    proof -
      have "unat sz * ?es \<le> unat nc * ?es" using sz nc by (intro mult_le_mono1) simp
      then have "disjoint_ranges ?p (unat sz * ?es) e ?es"
        by (intro disjoint_ranges_sub [OF dis]) (simp_all only: order_refl add_le_cancel_left)
      then show ?thesis
        using read_bytes_write_bytes_disjoint [of ?p "ring_bytes m (queue_data q) (block_size q) (unat t * ?es) (unat sz * ?es)" e ?es m]
        by (simp add: read_bytes_def bytes)
    qed
    ultimately show ?thesis by (simp add: element_ok_def disjoint_ranges_sym)
  qed
  show thesis using that [OF grow refl wf' sh' blk'] sl keep by simp
qed

section \<open>What the operations do\<close>

lemma queue_shape_idx_update [simp]:
  "queue_shape (q\<lparr>take_idx := i\<rparr>) = queue_shape q" "queue_shape (q\<lparr>push_idx := i\<rparr>) = queue_shape q"
  "queue_shape (q\<lparr>queue_size := n\<rparr>) = queue_shape q"
  by (simp_all add: queue_shape_def)

lemma queue_block_idx_update [simp]:
  "queue_block m (q\<lparr>take_idx := i\<rparr>) = queue_block m q" "queue_block m (q\<lparr>push_idx := i\<rparr>) = queue_block m q"
  "queue_block m (q\<lparr>queue_size := n\<rparr>) = queue_block m q"
  "queue_block (write_bytes m p bs) q = queue_block m q"
  by (simp_all add: queue_block_def)

lemma element_ok_update [simp]:
  "element_ok m (q\<lparr>take_idx := i\<rparr>) e = element_ok m q e" "element_ok m (q\<lparr>push_idx := i\<rparr>) e = element_ok m q e"
  "element_ok m (q\<lparr>queue_size := n\<rparr>) e = element_ok m q e"
  "element_ok (write_bytes m p bs) q e = element_ok m q e"
  by (simp_all add: element_ok_def)

text \<open>An operation keeps every caller's element that is clear of the data block usable and
  unchanged.\<close>

definition keeps_elements :: "memory \<Rightarrow> cyclic_queue \<Rightarrow> memory \<Rightarrow> cyclic_queue \<Rightarrow> bool" where
  "keeps_elements m q m' q' \<longleftrightarrow> (\<forall>e. element_ok m q e \<longrightarrow> element_ok m' q' e \<and>
     read_bytes m' e (unat (element_size q)) = read_bytes m e (unat (element_size q)))"

lemma keeps_elementsD:
  "keeps_elements m q m' q' \<Longrightarrow> element_ok m q e \<Longrightarrow> element_ok m' q' e \<and>
     read_bytes m' e (unat (element_size q)) = read_bytes m e (unat (element_size q))"
  by (simp add: keeps_elements_def)

lemma keeps_elements_trans:
  "keeps_elements m q m' q' \<Longrightarrow> keeps_elements m' q' m'' q'' \<Longrightarrow> element_size q' = element_size q \<Longrightarrow>
   keeps_elements m q m'' q''"
  by (simp add: keeps_elements_def)

lemma lock_idx_bounded: "unat i \<le> 2 ^ 18 \<Longrightarrow> lock_idx i = Some i \<and> i \<noteq> UINT32_MAX"
  by (auto simp: lock_idx_def UINT32_MAX_def)

lemma wf_queue_idx_bounds:
  assumes "wf_queue m q"
  shows "unat (take_idx q) < unat (capacity q)" and "unat (push_idx q) < unat (capacity q)"
    and "unat (take_idx q) \<le> 2 ^ 18" and "unat (push_idx q) \<le> 2 ^ 18"
    and "unat (queue_size q) \<le> unat (capacity q)"
proof -
  have sh: "queue_shape q" and t: "unat (take_idx q) < unat (capacity q)"
    and p: "unat (push_idx q) = (unat (take_idx q) + unat (queue_size q)) mod unat (capacity q)"
    and s: "unat (queue_size q) \<le> unat (capacity q)"
    using assms by (simp_all add: wf_queue_def queue_idx_def)
  have c: "unat (capacity q) \<le> 2 ^ 18" "0 < unat (capacity q)" using queue_shape_bounds [OF sh] by simp_all
  show t': "unat (take_idx q) < unat (capacity q)" by (fact t)
  show p': "unat (push_idx q) < unat (capacity q)" unfolding p using c(2) by simp
  show "unat (take_idx q) \<le> 2 ^ 18" "unat (push_idx q) \<le> 2 ^ 18" using t' p' c(1) by simp_all
  show "unat (queue_size q) \<le> unat (capacity q)" by (fact s)
qed

text \<open>The condition under which a push goes through.\<close>

definition grown_capacity :: "cyclic_queue \<Rightarrow> u32" where
  "grown_capacity q = min (capacity q * 2) (max_capacity q)"

definition queue_accepts :: "allocator \<Rightarrow> memory \<Rightarrow> cyclic_queue \<Rightarrow> bool" where
  "queue_accepts al m q \<longleftrightarrow> queue_size q \<noteq> capacity q \<or>
     capacity q < max_capacity q \<and> al m (unat (element_size q * grown_capacity q)) \<noteq> NULL"

lemma grown_capacity_bounds:
  assumes "queue_shape q"
  shows "unat (capacity q) \<le> unat (grown_capacity q)" and "unat (grown_capacity q) \<le> unat (max_capacity q)"
    and "grown_capacity q = capacity q \<longleftrightarrow> \<not> capacity q < max_capacity q"
    and "unat (grown_capacity q) = min (2 * unat (capacity q)) (unat (max_capacity q))"
proof -
  have "unat (capacity q * 2) = unat (capacity q) * 2"
    using unat_mult_small [of "capacity q" 2] queue_shape_bounds [OF assms] by simp
  then show g: "unat (grown_capacity q) = min (2 * unat (capacity q)) (unat (max_capacity q))"
    by (simp add: grown_capacity_def unat_min)
  then show "unat (capacity q) \<le> unat (grown_capacity q)" "unat (grown_capacity q) \<le> unat (max_capacity q)"
    using assms by (auto simp: queue_shape_def)
  show "grown_capacity q = capacity q \<longleftrightarrow> \<not> capacity q < max_capacity q"
    using g assms by (auto simp: queue_shape_def word_less_nat_alt word_unat_eq_iff min_def split: if_splits)
qed

lemma push_not_full:
  assumes wf: "wf_queue m q" and e: "element_ok m q e" and free: "queue_size q \<noteq> capacity q"
  shows "cyclic_queue_push al m q e =
    Some (write_bytes m (queue_data q + unat (push_idx q) * unat (element_size q))
            (read_bytes m e (unat (element_size q))),
          q\<lparr>push_idx := succ_idx q (push_idx q), queue_size := queue_size q + 1\<rparr>, True)"
proof -
  note b = wf_queue_idx_bounds [OF wf]
  let ?q = "q\<lparr>push_idx := UINT32_MAX\<rparr>"
  have "store_element m ?q (push_idx q) e =
    Some (write_bytes m (queue_data q + unat (push_idx q) * unat (element_size q))
            (read_bytes m e (unat (element_size q))), succ_idx q (push_idx q))"
    using store_element_result [of ?q m e "push_idx q"] wf b e by (simp add: wf_queue_def succ_idx_def)
  then show ?thesis
    using free lock_idx_bounded [OF b(4)] by (simp add: cyclic_queue_push_def Let_def)
qed

lemma push_refused:
  assumes wf: "wf_queue m q" and no: "\<not> queue_accepts al m q"
  shows "cyclic_queue_push al m q e = Some (m, q, False)"
proof -
  note b = wf_queue_idx_bounds [OF wf]
  let ?q = "q\<lparr>push_idx := UINT32_MAX, take_idx := UINT32_MAX\<rparr>"
  have full: "queue_size q = capacity q" using no by (simp add: queue_accepts_def)
  have "push_when_full al m ?q (push_idx q) (take_idx q) = Some (m, ?q, push_idx q, take_idx q, False)"
  proof (cases "capacity q < max_capacity q")
    case True
    then have "al m (unat (element_size ?q * grown_capacity q)) = NULL"
      using no full by (simp add: queue_accepts_def)
    then have "queue_grow al m ?q (take_idx q) (capacity q) (grown_capacity q) = Some None"
      by (rule queue_grow_fails)
    then show ?thesis by (simp add: push_when_full_def Let_def full flip: grown_capacity_def)
  next
    case False
    then have "grown_capacity q = capacity q" using grown_capacity_bounds(3) wf by (simp add: wf_queue_def)
    then show ?thesis by (simp add: push_when_full_def Let_def full flip: grown_capacity_def)
  qed
  then show ?thesis
    using full lock_idx_bounded [OF b(3)] lock_idx_bounded [OF b(4)]
    by (simp add: cyclic_queue_push_def Let_def)
qed

text \<open>The re-allocated queue, before its new element is stored.\<close>

lemma push_full:
  assumes wf: "wf_queue m q" and al: "allocator_ok al" and e: "element_ok m q e"
    and full: "queue_size q = capacity q" and yes: "queue_accepts al m q"
  obtains m' q' where "wf_queue m' q'" and "queue_size q' \<noteq> capacity q'"
    and "keeps_elements m q m' q'" and "element_size q' = element_size q" and "max_capacity q' = max_capacity q"
    and "queue_size q' = queue_size q"
    and "capacity q' = grown_capacity q" and "queue_elems m' q' = queue_elems m q"
    and "cyclic_queue_push al m q e = cyclic_queue_push al m' q' e"
proof -
  note b = wf_queue_idx_bounds [OF wf]
  let ?q = "q\<lparr>push_idx := UINT32_MAX, take_idx := UINT32_MAX\<rparr>" and ?g = "grown_capacity q"
  have sh: "queue_shape q" using wf by (simp add: wf_queue_def)
  note g = grown_capacity_bounds [OF sh]
  have more: "capacity q < max_capacity q" and p: "al m (unat (element_size q * ?g)) \<noteq> NULL"
    using yes full by (simp_all add: queue_accepts_def)
  have bigger: "unat (capacity q) < unat ?g" "capacity q \<noteq> ?g"
    using g(4) more queue_shape_bounds(1) [OF sh] by (auto simp: word_less_nat_alt)
  have pre: "wf_memory m" "queue_shape ?q" "queue_block m ?q" using wf by (auto simp: wf_queue_def)
  have idx: "unat (take_idx q) < unat (capacity ?q)" "unat (capacity q) \<le> unat (capacity ?q)"
    "unat (capacity ?q) \<le> unat ?g" "unat ?g \<le> unat (max_capacity ?q)"
    "al m (unat (element_size ?q * ?g)) \<noteq> NULL"
    using b(1) g(1,2) p by simp_all
  obtain m' q1 where grow: "queue_grow al m ?q (take_idx q) (capacity q) ?g = Some (Some (m', q1))"
    and q1: "q1 = ?q\<lparr>queue_data := al m (unat (element_size q * ?g)), capacity := ?g\<rparr>"
    and w: "wf_memory m'" "queue_shape q1" "queue_block m' q1"
    and sl: "slots m' (queue_data q1) (unat (element_size q)) (unat ?g) 0 (unat (capacity q)) = queue_elems m q"
    and keep: "\<And>e. element_ok m q e \<Longrightarrow> element_ok m' q1 e \<and>
      read_bytes m' e (unat (element_size q)) = read_bytes m e (unat (element_size q))"
    by (rule queue_grow_spec [OF pre(1) al pre(2,3) idx]) (simp add: queue_elems_def full)
  define q' where "q' = q1\<lparr>push_idx := capacity q, take_idx := 0\<rparr>"
  have wf': "wf_queue m' q'"
    using w bigger full by (simp add: wf_queue_def q'_def queue_idx_def) (simp add: q1)
  have fields: "queue_size q' \<noteq> capacity q'" "element_size q' = element_size q" "capacity q' = ?g"
    "max_capacity q' = max_capacity q" "queue_size q' = queue_size q"
    using bigger full by (simp_all add: q'_def q1)
  have elems: "queue_elems m' q' = queue_elems m q"
    using sl full by (simp add: queue_elems_def q'_def q1)
  have e': "keeps_elements m q m' q'" using keep by (simp add: q'_def keeps_elements_def)
  have first: "push_when_full al m ?q (push_idx q) (take_idx q) = Some (m', q1, capacity q, 0, True)"
    using bigger grow by (simp add: push_when_full_def Let_def full flip: grown_capacity_def)
  have qq: "q'\<lparr>push_idx := UINT32_MAX\<rparr> = q1\<lparr>take_idx := 0\<rparr>" by (simp add: q'_def q1)
  have "store_element m' q1 (capacity q) e = store_element m' (q'\<lparr>push_idx := UINT32_MAX\<rparr>) (capacity q) e"
    by (simp add: store_element_def element_ptr_def q'_def)
  moreover have "push_idx q' = capacity q" by (simp add: q'_def)
  moreover have "unat (capacity q) \<le> 2 ^ 18" using queue_shape_bounds [OF sh] by simp
  ultimately have "cyclic_queue_push al m q e = cyclic_queue_push al m' q' e"
    using full lock_idx_bounded [OF b(3)] lock_idx_bounded [OF b(4)] lock_idx_bounded [of "capacity q"]
      first fields(1)
    by (simp add: cyclic_queue_push_def Let_def qq UINT32_MAX_def bind_assoc)
      (auto simp: q'_def q1 bind_eq_Some_conv split: bind_splits)
  with that [OF wf' fields(1) e' fields(2,4,5,3) elems] show thesis by simp
qed

lemma succ_idx_mod:
  assumes "wf_queue m q" and "queue_size q \<noteq> capacity q"
  shows "unat (succ_idx q (push_idx q)) = (unat (take_idx q) + (unat (queue_size q) + 1)) mod unat (capacity q)"
proof -
  have "unat (push_idx q) = (unat (take_idx q) + unat (queue_size q)) mod unat (capacity q)" "queue_shape q"
    using assms(1) by (simp_all add: wf_queue_def queue_idx_def)
  then show ?thesis
    using unat_succ_idx [of q "push_idx q"] wf_queue_idx_bounds(2) [OF assms(1)] by (simp add: mod_simps)
qed

lemma wf_queue_size_less: "wf_queue m q \<Longrightarrow> queue_size q \<noteq> capacity q \<Longrightarrow> unat (queue_size q) < unat (capacity q)"
  using wf_queue_idx_bounds(5) [of m q] by (metis le_neq_implies_less word_unat_eq_iff)

lemma push_not_full_spec:
  assumes wf: "wf_queue m q" and e: "element_ok m q e" and free: "queue_size q \<noteq> capacity q"
  obtains m' q' where "cyclic_queue_push al m q e = Some (m', q', True)" and "wf_queue m' q'"
    and "queue_elems m' q' = queue_elems m q @ [read_bytes m e (unat (element_size q))]"
    and "keeps_elements m q m' q'" and "capacity q' = capacity q" and "element_size q' = element_size q"
    and "max_capacity q' = max_capacity q" and "queue_size q' = queue_size q + 1"
proof -
  let ?bs = "read_bytes m e (unat (element_size q))" and ?q = "q\<lparr>push_idx := succ_idx q (push_idx q), queue_size := queue_size q + 1\<rparr>"
  let ?m = "write_bytes m (queue_data q + unat (push_idx q) * unat (element_size q)) ?bs"
  note less = wf_queue_size_less [OF wf free] and t = wf_queue_idx_bounds(1) [OF wf]
  have p: "unat (push_idx q) = (unat (take_idx q) + unat (queue_size q)) mod unat (capacity q)"
    using wf by (simp add: wf_queue_def queue_idx_def)
  have "unat (capacity q) \<le> 2 ^ 18" using wf queue_shape_bounds by (simp add: wf_queue_def)
  then have sz: "unat (queue_size q + 1) = Suc (unat (queue_size q))"
    using less by (subst unat_add_no_wrap) auto
  have "queue_idx ?q"
    using less t succ_idx_mod [OF wf free] by (simp add: queue_idx_def sz)
  then have "wf_queue ?m ?q" using wf by (simp add: wf_queue_def)
  moreover have "queue_elems ?m ?q = queue_elems m q @ [?bs]"
    using slots_push [OF less t, of ?bs "unat (element_size q)" m "queue_data q"] by (simp add: queue_elems_def sz p)
  moreover have "keeps_elements m q ?m ?q"
    unfolding keeps_elements_def
  proof (intro allI impI)
    fix e' assume e': "element_ok m q e'"
    have i: "unat (push_idx q) < unat (capacity q)" by (rule wf_queue_idx_bounds(2) [OF wf])
    have "read_bytes ?m e' (unat (element_size q)) = read_bytes m e' (unat (element_size q))"
      using element_slot_disjoint [OF e' i]
      by (intro read_bytes_write_bytes_disjoint) (simp add: disjoint_ranges_sym)
    then show "element_ok ?m ?q e' \<and> read_bytes ?m e' (unat (element_size q)) = read_bytes m e' (unat (element_size q))"
      using e' by simp
  qed
  ultimately show thesis using that [OF push_not_full [OF wf e free]] by simp
qed

lemma push_spec:
  assumes wf: "wf_queue m q" and al: "allocator_ok al" and e: "element_ok m q e" and yes: "queue_accepts al m q"
  obtains m' q' where "cyclic_queue_push al m q e = Some (m', q', True)" and "wf_queue m' q'"
    and "queue_elems m' q' = queue_elems m q @ [read_bytes m e (unat (element_size q))]"
    and "keeps_elements m q m' q'" and "element_size q' = element_size q" and "max_capacity q' = max_capacity q"
    and "capacity q' = (if queue_size q = capacity q then grown_capacity q else capacity q)"
    and "queue_size q' = queue_size q + 1"
proof (cases "queue_size q = capacity q")
  case True
  from push_full [OF wf al e True yes] obtain m1 q1 where 1: "wf_queue m1 q1" "queue_size q1 \<noteq> capacity q1"
    "keeps_elements m q m1 q1" "element_size q1 = element_size q" "max_capacity q1 = max_capacity q"
    "queue_size q1 = queue_size q" "capacity q1 = grown_capacity q" "queue_elems m1 q1 = queue_elems m q"
    "cyclic_queue_push al m q e = cyclic_queue_push al m1 q1 e" .
  note e1 = keeps_elementsD [OF 1(3) e]
  from push_not_full_spec [OF 1(1) conjunct1 [OF e1] 1(2), of al] obtain m' q' where
    "cyclic_queue_push al m1 q1 e = Some (m', q', True)" "wf_queue m' q'"
    "queue_elems m' q' = queue_elems m1 q1 @ [read_bytes m1 e (unat (element_size q1))]"
    "keeps_elements m1 q1 m' q'" "capacity q' = capacity q1" "element_size q' = element_size q1"
    "max_capacity q' = max_capacity q1" "queue_size q' = queue_size q1 + 1" .
  then show thesis using that [of m' q'] 1 True e1 keeps_elements_trans [OF 1(3)] by simp
next
  case False
  show thesis
    by (rule push_not_full_spec [OF wf e False, of al])
      (rule that, assumption, assumption, assumption, assumption, simp_all add: False)
qed

lemma take_empty: "queue_size q = 0 \<Longrightarrow> cyclic_queue_take m q e = Some (m, q, False)"
  by (simp add: cyclic_queue_take_def)

lemma take_spec:
  assumes wf: "wf_queue m q" and e: "element_ok m q e" and some: "queue_size q \<noteq> 0"
  obtains m' q' where "cyclic_queue_take m q e = Some (m', q', True)" and "wf_queue m' q'"
    and "queue_elems m q = read_bytes m' e (unat (element_size q)) # queue_elems m' q'"
    and "\<And>e'. element_ok m q e' \<Longrightarrow> element_ok m' q' e'"
    and "element_size q' = element_size q" and "max_capacity q' = max_capacity q"
    and "capacity q' = capacity q" and "queue_size q' = queue_size q - 1"
proof -
  let ?es = "unat (element_size q)" and ?t = "unat (take_idx q)" and ?cap = "unat (capacity q)"
  let ?bs = "slot m (queue_data q) ?es ?t"
  let ?q = "q\<lparr>take_idx := succ_idx q (take_idx q), queue_size := queue_size q - 1\<rparr>"
  let ?m = "write_bytes m e ?bs"
  note b = wf_queue_idx_bounds [OF wf]
  have sh: "queue_shape q" and blk: "queue_block m q"
    and p: "unat (push_idx q) = (?t + unat (queue_size q)) mod ?cap"
    using wf by (simp_all add: wf_queue_def queue_idx_def)
  obtain n where n: "unat (queue_size q) = Suc n"
    using some by (metis not0_implies_Suc unat_eq_0)
  then have n': "unat (queue_size q - 1) = n" by (subst unat_sub_no_wrap) auto
  have s: "unat (succ_idx q (take_idx q)) = (?t + 1) mod ?cap" by (rule unat_succ_idx [OF sh b(1)])
  have "queue_idx ?q" using p b(5) queue_shape_bounds(1) [OF sh] by (simp add: queue_idx_def s n n' mod_simps)
  then have wf': "wf_queue ?m ?q" using wf by (simp add: wf_queue_def)
  have len: "length ?bs = ?es" by (simp add: slot_def)
  have elems: "queue_elems m q = ?bs # queue_elems m ?q"
    using slots_Cons [OF b(1), of m "queue_data q" ?es n] by (simp add: queue_elems_def n n' s)
  have same: "queue_elems ?m ?q = queue_elems m ?q"
    using e len queue_shape_bounds(1) [OF sh] unfolding queue_elems_def
    by (simp add: element_ok_def slots_write_outside)
  have "fetch_element m (q\<lparr>take_idx := UINT32_MAX\<rparr>) (take_idx q) e = Some (?m, succ_idx q (take_idx q))"
    using fetch_element_result [of "q\<lparr>take_idx := UINT32_MAX\<rparr>" m e "take_idx q"] sh blk e b(1)
    by (simp add: succ_idx_def)
  then have "cyclic_queue_take m q e = Some (?m, ?q, True)"
    using some lock_idx_bounded [OF b(3)] by (simp add: cyclic_queue_take_def Let_def)
  moreover have "read_bytes ?m e ?es = ?bs" using len by simp
  ultimately show thesis using that [of ?m ?q] wf' elems same e by simp
qed

section \<open>The queue as a FIFO\<close>

text \<open>The steps of a program that uses a queue: a push or a take that succeeds, and a failed
  operation or a write of the program outside the data block.\<close>

inductive queue_enq ::
    "allocator \<Rightarrow> memory \<times> cyclic_queue \<Rightarrow> u8 list \<Rightarrow> memory \<times> cyclic_queue \<Rightarrow> bool" for al where
  "element_ok m q e \<Longrightarrow> cyclic_queue_push al m q e = Some (m', q', True) \<Longrightarrow>
   queue_enq al (m, q) (read_bytes m e (unat (element_size q))) (m', q')"

inductive queue_deq :: "memory \<times> cyclic_queue \<Rightarrow> u8 list \<Rightarrow> memory \<times> cyclic_queue \<Rightarrow> bool" where
  "element_ok m q e \<Longrightarrow> cyclic_queue_take m q e = Some (m', q', True) \<Longrightarrow>
   queue_deq (m, q) (read_bytes m' e (unat (element_size q))) (m', q')"

inductive queue_env :: "allocator \<Rightarrow> memory \<times> cyclic_queue \<Rightarrow> memory \<times> cyclic_queue \<Rightarrow> bool" for al where
  env_push: "element_ok m q e \<Longrightarrow> cyclic_queue_push al m q e = Some (m', q', False) \<Longrightarrow>
    queue_env al (m, q) (m', q')"
| env_take: "element_ok m q e \<Longrightarrow> cyclic_queue_take m q e = Some (m', q', False) \<Longrightarrow>
    queue_env al (m, q) (m', q')"
| env_write: "disjoint_ranges p (length bs) (queue_data q) (block_size q) \<Longrightarrow>
    queue_env al (m, q) (write_bytes m p bs, q)"

inductive_cases queue_enqE: "queue_enq al (m, q) x s'"
inductive_cases queue_deqE: "queue_deq (m, q) x s'"

definition queue_inv :: "allocator \<Rightarrow> memory \<times> cyclic_queue \<Rightarrow> bool" where
  "queue_inv al s \<longleftrightarrow> allocator_ok al \<and> wf_queue (fst s) (snd s)"

lemma push_True_accepts:
  assumes "wf_queue m q" and "cyclic_queue_push al m q e = Some (m', q', True)"
  shows "queue_accepts al m q"
  using push_refused [OF assms(1), of al e] assms(2) by (cases "queue_accepts al m q") auto

lemma take_True_nonempty:
  assumes "cyclic_queue_take m q e = Some (m', q', True)"
  shows "queue_size q \<noteq> 0"
  using assms take_empty [of q m e] by auto

lemma push_False_same:
  assumes "wf_queue m q" and "allocator_ok al" and "element_ok m q e"
    and "cyclic_queue_push al m q e = Some (m', q', False)"
  shows "m' = m \<and> q' = q"
proof (cases "queue_accepts al m q")
  case True
  then show ?thesis by (rule push_spec [OF assms(1-3)]) (use assms(4) in auto)
qed (use push_refused [OF assms(1), of al e] assms(4) in auto)

lemma take_False_same:
  assumes "wf_queue m q" and "element_ok m q e" and "cyclic_queue_take m q e = Some (m', q', False)"
  shows "m' = m \<and> q' = q"
proof (cases "queue_size q = 0")
  case False
  then show ?thesis by (rule take_spec [OF assms(1-2)]) (use assms(3) in auto)
qed (use take_empty [of q m e] assms(3) in auto)

lemma queue_enq_law:
  assumes "queue_inv al s" and "queue_enq al s x s'"
  shows "queue_inv al s' \<and> case_prod queue_elems s' = case_prod queue_elems s @ [x]"
proof -
  obtain m q where s: "s = (m, q)" by fastforce
  from assms(2) [unfolded s] obtain e m' q' where 1: "s' = (m', q')" "x = read_bytes m e (unat (element_size q))"
    "element_ok m q e" "cyclic_queue_push al m q e = Some (m', q', True)"
    by (cases rule: queue_enqE) auto
  have inv: "wf_queue m q" "allocator_ok al" using assms(1) by (simp_all add: queue_inv_def s)
  show ?thesis
    by (rule push_spec [OF inv 1(3) push_True_accepts [OF inv(1) 1(4)]]) (use 1 inv in \<open>simp add: s queue_inv_def\<close>)
qed

lemma queue_deq_law:
  assumes "queue_inv al s" and "queue_deq s x s'"
  shows "queue_inv al s' \<and> case_prod queue_elems s = x # case_prod queue_elems s'"
proof -
  obtain m q where s: "s = (m, q)" by fastforce
  from assms(2) [unfolded s] obtain e m' q' where 1: "s' = (m', q')" "x = read_bytes m' e (unat (element_size q))"
    "element_ok m q e" "cyclic_queue_take m q e = Some (m', q', True)"
    by (cases rule: queue_deqE) auto
  have inv: "wf_queue m q" "allocator_ok al" using assms(1) by (simp_all add: queue_inv_def s)
  show ?thesis
    by (rule take_spec [OF inv(1) 1(3) take_True_nonempty [OF 1(4)]]) (use 1 inv in \<open>simp add: s queue_inv_def\<close>)
qed

lemma queue_env_law:
  assumes "queue_inv al s" and "queue_env al s s'"
  shows "queue_inv al s' \<and> case_prod queue_elems s' = case_prod queue_elems s"
proof -
  from assms(2) show ?thesis
  proof (cases rule: queue_env.cases)
    case (env_push m q e m' q')
    then show ?thesis
      using push_False_same [of m q al e m' q'] assms(1) by (simp add: queue_inv_def)
  next
    case (env_take m q e m' q')
    then show ?thesis using take_False_same [of m q e m' q'] assms(1) by (simp add: queue_inv_def)
  next
    case (env_write p bs q m)
    have "0 < unat (capacity q)" using env_write assms(1) queue_shape_bounds(1) by (simp add: queue_inv_def wf_queue_def)
    then have "queue_elems (write_bytes m p bs) q = queue_elems m q"
      using env_write by (simp add: queue_elems_def slots_write_outside)
    then show ?thesis using env_write assms(1) by (simp add: queue_inv_def wf_queue_def)
  qed
qed

interpretation queue: fifo "queue_inv al" "case_prod queue_elems" "queue_enq al" queue_deq "queue_env al" for al
  by unfold_locales (blast dest: queue_enq_law queue_deq_law queue_env_law)+

section \<open>Sample queues\<close>

text \<open>Two elements that wrap round the end of the block, and a full queue.\<close>

definition sample_queue :: cyclic_queue where
  "sample_queue = \<lparr>queue_data = 4096, element_size = 64, capacity = 64, max_capacity = 0x40000,
     queue_size = 2, take_idx = 63, push_idx = 1\<rparr>"

definition full_queue :: cyclic_queue where
  "full_queue = sample_queue\<lparr>queue_size := 64, take_idx := 5, push_idx := 5\<rparr>"

lemma sample_queue_wf: "wf_queue sample_memory sample_queue" "wf_queue sample_memory full_queue"
  using sample_memory_wf
  by (simp_all add: wf_queue_def queue_shape_def queue_block_def queue_idx_def sample_queue_def full_queue_def)
    (simp_all add: sample_memory_def)

lemma sample_queue_element: "element_ok sample_memory sample_queue 1000" "element_ok sample_memory full_queue 1000"
  by (simp_all add: element_ok_def sample_queue_def full_queue_def disjoint_ranges_def)

lemma sample_queue_accepts:
  "queue_accepts bump_allocator sample_memory sample_queue" "queue_accepts bump_allocator sample_memory full_queue"
  "\<not> queue_accepts (\<lambda>m n. NULL) sample_memory full_queue"
  by (simp_all add: queue_accepts_def sample_queue_def full_queue_def bump_allocator_def Let_def grown_capacity_def
      sample_memory_def min_def)

section \<open>Properties\<close>

text \<open>C5: A push on a well-formed queue always returns.  When a slot is free, or the queue can
  still grow and the allocation succeeds, the push returns true and appends exactly the
  caller's element to the queue's elements: no element is lost, reordered or changed, also when
  the data moves to a larger block, and the capacity becomes the doubled one, limited by the
  maximum.  Otherwise it returns false and changes nothing.  In both cases the queue stays
  well-formed, with both index locks released.\<close>

theorem cyclic_queue_push_correct:
  assumes "wf_queue m q" and "allocator_ok al" and "element_ok m q e"
  shows "(queue_accepts al m q \<longrightarrow>
      (\<exists>m' q'. cyclic_queue_push al m q e = Some (m', q', True) \<and> wf_queue m' q' \<and>
        queue_elems m' q' = queue_elems m q @ [read_bytes m e (unat (element_size q))] \<and>
        capacity q' = (if queue_size q = capacity q then grown_capacity q else capacity q) \<and>
        element_size q' = element_size q \<and> max_capacity q' = max_capacity q \<and>
        keeps_elements m q m' q')) \<and>
    (\<not> queue_accepts al m q \<longrightarrow> cyclic_queue_push al m q e = Some (m, q, False))"
proof (intro conjI impI)
  assume yes: "queue_accepts al m q"
  show "\<exists>m' q'. cyclic_queue_push al m q e = Some (m', q', True) \<and> wf_queue m' q' \<and>
        queue_elems m' q' = queue_elems m q @ [read_bytes m e (unat (element_size q))] \<and>
        capacity q' = (if queue_size q = capacity q then grown_capacity q else capacity q) \<and>
        element_size q' = element_size q \<and> max_capacity q' = max_capacity q \<and>
        keeps_elements m q m' q'"
    by (rule push_spec [OF assms yes]) (intro exI conjI)
qed (rule push_refused [OF assms(1)])

theorem cyclic_queue_push_correct_witness:
  "(\<exists>m' q'. cyclic_queue_push bump_allocator sample_memory full_queue 1000 = Some (m', q', True) \<and>
      capacity q' = 128 \<and> length (queue_elems m' q') = 65) \<and>
   cyclic_queue_push (\<lambda>m n. NULL) sample_memory full_queue 1000 = Some (sample_memory, full_queue, False)"
proof -
  have null: "allocator_ok (\<lambda>m n. NULL)" by (simp add: allocator_ok_def)
  have "grown_capacity full_queue = 128"
    by (simp add: grown_capacity_def full_queue_def sample_queue_def min_def)
  moreover have "length (queue_elems sample_memory full_queue) = 64" "queue_size full_queue = capacity full_queue"
    by (simp_all add: queue_elems_def full_queue_def sample_queue_def)
  ultimately show ?thesis
    using cyclic_queue_push_correct [OF sample_queue_wf(2) bump_allocator_ok sample_queue_element(2)]
      cyclic_queue_push_correct [OF sample_queue_wf(2) null sample_queue_element(2)] sample_queue_accepts
    by fastforce
qed

text \<open>C6: A take from a well-formed queue always returns.  From an empty queue it returns false
  and changes nothing; otherwise it returns true, the caller's buffer receives exactly the
  oldest element, and the queue keeps the others in order.\<close>

theorem cyclic_queue_take_correct:
  assumes "wf_queue m q" and "element_ok m q e"
  shows "(queue_elems m q = [] \<longrightarrow> cyclic_queue_take m q e = Some (m, q, False)) \<and>
    (\<forall>x xs. queue_elems m q = x # xs \<longrightarrow>
      (\<exists>m' q'. cyclic_queue_take m q e = Some (m', q', True) \<and> wf_queue m' q' \<and>
        read_bytes m' e (unat (element_size q)) = x \<and> queue_elems m' q' = xs \<and>
        capacity q' = capacity q \<and> element_size q' = element_size q))"
proof -
  have len: "length (queue_elems m q) = unat (queue_size q)" by (simp add: queue_elems_def)
  show ?thesis
  proof (cases "queue_size q = 0")
    case True
    then have "queue_elems m q = []" using len by simp
    then show ?thesis using take_empty [OF True] by simp
  next
    case False
    show ?thesis by (rule take_spec [OF assms False]) auto
  qed
qed

theorem cyclic_queue_take_correct_witness:
  "\<exists>m' q'. cyclic_queue_take sample_memory sample_queue 1000 = Some (m', q', True) \<and> wf_queue m' q' \<and>
     read_bytes m' 1000 64 = slot sample_memory 4096 64 63 \<and>
     queue_elems m' q' = [slot sample_memory 4096 64 0]"
proof -
  have "queue_elems sample_memory sample_queue = [slot sample_memory 4096 64 63, slot sample_memory 4096 64 0]"
    using slots_Suc [of sample_memory 4096 64 64 63 1] slots_Suc [of sample_memory 4096 64 64 63 0]
    by (simp add: queue_elems_def sample_queue_def flip: numeral_2_eq_2)
  moreover have "element_size sample_queue = 64" by (simp add: sample_queue_def)
  ultimately show ?thesis
    using cyclic_queue_take_correct [OF sample_queue_wf(1) sample_queue_element(1)] by auto
qed

text \<open>C8: First in, first out over whole runs: after any sequence of successful and failed
  pushes and takes, with any writes of the program outside the data block in between, and any
  number of re-allocations, the elements taken so far followed by the elements still queued
  are the initial elements followed by the elements pushed, in order.\<close>

theorem cyclic_queue_fifo:
  assumes "fifo_run (queue_enq al) queue_deq (queue_env al) (m, q) (m', q') pushed taken"
    and "allocator_ok al" and "wf_queue m q"
  shows "wf_queue m' q' \<and> queue_elems m q @ pushed = taken @ queue_elems m' q'"
  using queue.run_fifo [OF assms(1)] assms(2,3) by (simp add: queue_inv_def)

theorem cyclic_queue_fifo_witness:
  "\<exists>m' q' x. fifo_run (queue_enq bump_allocator) queue_deq (queue_env bump_allocator)
       (sample_memory, full_queue) (m', q') [x] [] \<and> capacity q' = 128 \<and>
     queue_elems sample_memory full_queue @ [x] = [] @ queue_elems m' q'"
proof -
  obtain m' q' where p: "cyclic_queue_push bump_allocator sample_memory full_queue 1000 = Some (m', q', True)"
    and c: "capacity q' = (if queue_size full_queue = capacity full_queue then grown_capacity full_queue else capacity full_queue)"
    by (rule push_spec [OF sample_queue_wf(2) bump_allocator_ok sample_queue_element(2) sample_queue_accepts(2)])
  have run: "fifo_run (queue_enq bump_allocator) queue_deq (queue_env bump_allocator) (sample_memory, full_queue)
      (m', q') ([] @ [read_bytes sample_memory 1000 (unat (element_size full_queue))]) []"
    by (rule fifo_enq, rule fifo_start, rule queue_enq.intros [OF sample_queue_element(2) p])
  have "capacity q' = 128"
    by (simp add: c grown_capacity_def full_queue_def sample_queue_def min_def)
  then show ?thesis
    using cyclic_queue_fifo [OF run bump_allocator_ok sample_queue_wf(2)] run by auto
qed

text \<open>C18: Growing a well-formed queue (in any rotation, to any larger capacity within the
  maximum) moves every element to the start of the new block in queue order, with one or two
  copies that stay inside both blocks, frees the old block and leaves the struct's other
  fields alone; when the allocation fails nothing is changed.\<close>

theorem queue_grow_correct:
  assumes "wf_queue m q" and "allocator_ok al" and "capacity q \<le> nc" and "nc \<le> max_capacity q"
  shows "(al m (unat (element_size q * nc)) = NULL \<longrightarrow>
      queue_grow al m q (take_idx q) (queue_size q) nc = Some None) \<and>
    (al m (unat (element_size q * nc)) \<noteq> NULL \<longrightarrow>
      (\<exists>m'. let p = al m (unat (element_size q * nc)); q' = q\<lparr>queue_data := p, capacity := nc\<rparr> in
        queue_grow al m q (take_idx q) (queue_size q) nc = Some (Some (m', q')) \<and>
        wf_memory m' \<and> queue_block m' q' \<and>
        queue_elems m' (q'\<lparr>take_idx := 0\<rparr>) = queue_elems m q))"
proof (intro conjI impI)
  assume p: "al m (unat (element_size q * nc)) \<noteq> NULL"
  have pre: "wf_memory m" "queue_shape q" "queue_block m q" "unat (capacity q) \<le> unat nc" "unat nc \<le> unat (max_capacity q)"
    using assms by (auto simp: wf_queue_def word_le_nat_alt)
  note b = wf_queue_idx_bounds [OF assms(1)]
  show "\<exists>m'. let p = al m (unat (element_size q * nc)); q' = q\<lparr>queue_data := p, capacity := nc\<rparr> in
        queue_grow al m q (take_idx q) (queue_size q) nc = Some (Some (m', q')) \<and>
        wf_memory m' \<and> queue_block m' q' \<and>
        queue_elems m' (q'\<lparr>take_idx := 0\<rparr>) = queue_elems m q"
    by (rule queue_grow_spec [OF pre(1) assms(2) pre(2,3) b(1,5) pre(4,5) p])
      (auto simp: Let_def queue_elems_def)
qed (rule queue_grow_fails)

theorem queue_grow_correct_witness:
  "\<exists>m'. queue_grow bump_allocator sample_memory sample_queue 63 2 100 =
       Some (Some (m', sample_queue\<lparr>queue_data := 35968, capacity := 100\<rparr>)) \<and>
     queue_elems m' (sample_queue\<lparr>queue_data := 35968, capacity := 100, take_idx := 0\<rparr>) =
       queue_elems sample_memory sample_queue"
proof -
  have p: "bump_allocator sample_memory (unat (element_size sample_queue * 100)) = 35968"
    "take_idx sample_queue = 63" "queue_size sample_queue = 2"
    by (simp_all add: bump_allocator_def Let_def sample_memory_def sample_queue_def)
  have "capacity sample_queue \<le> 100" "100 \<le> max_capacity sample_queue" by (simp_all add: sample_queue_def)
  from queue_grow_correct [OF sample_queue_wf(1) bump_allocator_ok this] show ?thesis
    by (auto simp: p Let_def)
qed

text \<open>C36: Initialisation rounds the capacity up to the minimum, refuses a capacity above the
  maximum, an element size above the maximum and a failed allocation, leaving a zeroed struct
  and no allocation; otherwise it gives a well-formed empty queue on a new block that every
  existing object is clear of.\<close>

theorem cyclic_queue_init_correct:
  assumes "wf_memory m" and "allocator_ok al" and "0 < es"
  shows "let cap = max initial CYCLIC_QUEUE_MIN_CAPACITY; (m', q', ok) = cyclic_queue_init al m es initial in
    (ok \<longleftrightarrow> initial \<le> CYCLIC_QUEUE_MAX_CAPACITY \<and> es \<le> CYCLIC_QUEUE_MAX_ELEMENT_SIZE \<and>
       al m (unat (cap * es)) \<noteq> NULL) \<and>
    (\<not> ok \<longrightarrow> m' = m \<and> q' = zero_queue) \<and>
    (ok \<longrightarrow> wf_queue m' q' \<and> queue_elems m' q' = [] \<and> capacity q' = cap \<and> element_size q' = es \<and>
       max_capacity q' = CYCLIC_QUEUE_MAX_CAPACITY \<and> byte_at m' = byte_at m \<and>
       (\<forall>e. valid_range m e (unat es) \<longrightarrow> element_ok m' q' e))"
proof -
  note limits = CYCLIC_QUEUE_MIN_CAPACITY_def CYCLIC_QUEUE_MAX_CAPACITY_def CYCLIC_QUEUE_MAX_ELEMENT_SIZE_def
  define cap where "cap = max initial CYCLIC_QUEUE_MIN_CAPACITY"
  have cap': "(if initial < CYCLIC_QUEUE_MIN_CAPACITY then CYCLIC_QUEUE_MIN_CAPACITY else initial) = cap"
    by (auto simp: cap_def max_def)
  have big: "cap > CYCLIC_QUEUE_MAX_CAPACITY \<longleftrightarrow> \<not> initial \<le> CYCLIC_QUEUE_MAX_CAPACITY"
    by (auto simp: cap_def max_def limits word_le_nat_alt word_less_nat_alt)
  let ?p = "al m (unat (cap * es))"
  let ?q = "zero_queue\<lparr>queue_data := ?p, element_size := es, capacity := cap, max_capacity := CYCLIC_QUEUE_MAX_CAPACITY\<rparr>"
  let ?m = "m\<lparr>blocks := (?p, unat (cap * es)) # blocks m\<rparr>"
  have init: "cyclic_queue_init al m es initial =
      (if initial \<le> CYCLIC_QUEUE_MAX_CAPACITY \<and> es \<le> CYCLIC_QUEUE_MAX_ELEMENT_SIZE \<and> ?p \<noteq> NULL
       then (?m, ?q, True) else (m, zero_queue, False))"
    using big by (simp add: cyclic_queue_init_def cap' Let_def malloc_def not_le)
  have good: "wf_queue ?m ?q \<and> queue_elems ?m ?q = [] \<and> (\<forall>e. valid_range m e (unat es) \<longrightarrow> element_ok ?m ?q e)"
    if ok: "initial \<le> CYCLIC_QUEUE_MAX_CAPACITY" "es \<le> CYCLIC_QUEUE_MAX_ELEMENT_SIZE" "?p \<noteq> NULL"
  proof -
    have c: "unat cap \<le> 2 ^ 18" "0 < unat cap" "unat es \<le> 2 ^ 10" "0 < unat es"
      using ok assms(3) big by (auto simp: cap_def limits word_le_nat_alt word_less_nat_alt max_def unat_gt_0)
    have un: "unat (cap * es) = unat cap * unat es" using c by (intro unat_mult_small) auto
    have mal: "malloc al m (unat (cap * es)) = (?p, ?m)" using ok(3) by (simp add: malloc_def Let_def)
    have "queue_shape ?q" using c by (simp add: queue_shape_def limits)
    moreover have "queue_block ?m ?q" using ok(3) by (simp add: queue_block_def un)
    moreover have "queue_idx ?q" using c by (simp add: queue_idx_def zero_queue_def)
    ultimately have "wf_queue ?m ?q" using malloc_wf [OF assms(1,2) mal] by (simp add: wf_queue_def)
    moreover have "element_ok ?m ?q e" if "valid_range m e (unat es)" for e
      using that malloc_disjoint [OF assms(2) mal ok(3) that] malloc_keeps_valid [OF mal that]
      by (simp add: element_ok_def un disjoint_ranges_sym)
    ultimately show ?thesis by (simp add: queue_elems_def zero_queue_def)
  qed
  show ?thesis unfolding Let_def init cap_def [symmetric] using good by auto
qed

theorem cyclic_queue_init_correct_witness:
  "\<exists>m' q'. cyclic_queue_init bump_allocator sample_memory 8 1 = (m', q', True) \<and> wf_queue m' q' \<and>
     capacity q' = 64 \<and> element_ok m' q' 1000"
proof -
  obtain m' q' ok where i: "cyclic_queue_init bump_allocator sample_memory 8 1 = (m', q', ok)"
    by (cases "cyclic_queue_init bump_allocator sample_memory 8 1")
  have "(0::u32) < 8" by simp
  note init = cyclic_queue_init_correct [OF sample_memory_wf bump_allocator_ok this, of 1]
  have "bump_allocator sample_memory 512 \<noteq> NULL"
    by (simp add: bump_allocator_def Let_def sample_memory_def)
  then show ?thesis
    using init by (simp add: i CYCLIC_QUEUE_MIN_CAPACITY_def CYCLIC_QUEUE_MAX_CAPACITY_def
        CYCLIC_QUEUE_MAX_ELEMENT_SIZE_def max_def Let_def)
qed

text \<open>C37: Destroying a well-formed queue frees its block and nothing else, and zeroes the
  struct; the zeroed struct can be destroyed again, is empty, and refuses every push instead
  of touching memory.\<close>

theorem cyclic_queue_destroy_correct:
  assumes "wf_queue m q"
  shows "\<exists>m'. cyclic_queue_destroy m q = Some (m', zero_queue) \<and> wf_memory m' \<and>
    byte_at m' = byte_at m \<and> (\<forall>l. (queue_data q, l) \<notin> set (blocks m')) \<and>
    (\<forall>p n. 0 < n \<and> valid_range m p n \<and> disjoint_ranges p n (queue_data q) (block_size q) \<longrightarrow> valid_range m' p n) \<and>
    cyclic_queue_destroy m' zero_queue = Some (m', zero_queue) \<and>
    cyclic_queue_take m' zero_queue e = Some (m', zero_queue, False) \<and>
    cyclic_queue_push al m' zero_queue e = Some (m', zero_queue, False)"
proof -
  have blk: "(queue_data q, block_size q) \<in> set (blocks m)" "queue_data q \<noteq> NULL" and wf: "wf_memory m"
    using assms by (simp_all add: wf_queue_def queue_block_def)
  let ?m = "m\<lparr>blocks := filter (\<lambda>(b, l). b \<noteq> queue_data q) (blocks m)\<rparr>"
  have "cyclic_queue_destroy m q = Some (?m, zero_queue)"
    using blk by (simp add: cyclic_queue_destroy_def free_block)
  moreover have "wf_memory ?m" by (rule wf_memory_filter [OF wf])
  moreover have "valid_range ?m p n"
    if "0 < n \<and> valid_range m p n \<and> disjoint_ranges p n (queue_data q) (block_size q)" for p n
    using free_keeps_valid [OF wf blk(1), of p n] that by simp
  moreover have "cyclic_queue_push al ?m zero_queue e = Some (?m, zero_queue, False)"
    by (simp add: cyclic_queue_push_def push_when_full_def zero_queue_def lock_idx_def UINT32_MAX_def Let_def)
  moreover have "cyclic_queue_take ?m zero_queue e = Some (?m, zero_queue, False)"
    by (rule take_empty) (simp add: zero_queue_def)
  moreover have "cyclic_queue_destroy ?m zero_queue = Some (?m, zero_queue)"
    by (simp add: cyclic_queue_destroy_def zero_queue_def)
  ultimately show ?thesis by (intro exI [of _ ?m]) auto
qed

theorem cyclic_queue_destroy_correct_witness:
  "\<exists>m'. cyclic_queue_destroy sample_memory sample_queue = Some (m', zero_queue) \<and> wf_memory m' \<and>
     valid_range m' 1000 100"
proof -
  have d: "disjoint_ranges 1000 100 (queue_data sample_queue) (block_size sample_queue)"
    by (simp add: disjoint_ranges_def sample_queue_def)
  from cyclic_queue_destroy_correct [OF sample_queue_wf(1), where e = 0 and al = bump_allocator] obtain m' where
    "cyclic_queue_destroy sample_memory sample_queue = Some (m', zero_queue)" "wf_memory m'"
    "\<forall>p n. 0 < n \<and> valid_range sample_memory p n \<and>
       disjoint_ranges p n (queue_data sample_queue) (block_size sample_queue) \<longrightarrow> valid_range m' p n"
    by auto
  then show ?thesis using d by auto
qed

end
