(* ===== verification/World.thy ===== *)
theory World
  imports Memory
begin

text \<open>
  What the program's functions share besides their arguments: the memory, the flag of
  \<open>src/random.c\<close>, the lines written to the two output streams, and counters that index the
  answers of the operating system and the C library.  Those answers are parameters, the
  record \<open>system\<close>: the n-th call of a function is answered by its n-th value, so that a
  failing allocation or an interrupted read can occur at any point.
\<close>

section \<open>The system the program runs on\<close>

record system =
  time_of_day :: "nat \<Rightarrow> u64 \<times> u64"
  process_id :: u32
  os_random :: "nat \<Rightarrow> nat \<Rightarrow> u8 list option"
  alloc_ok :: "nat \<Rightarrow> bool"

text \<open>
  \<open>time_of_day\<close> gives seconds and microseconds, \<open>os_random n k\<close> the bytes the n-th
  \<open>getrandom\<close> call delivers for a request of \<open>k\<close> bytes (\<open>None\<close> is the result -1) and
  \<open>alloc_ok\<close> says which of the string allocations succeed.
\<close>

record world =
  mem :: memory
  do_use_prng :: bool
  clock_calls :: nat
  rnd_calls :: nat
  allocs :: nat
  contexts :: nat
  out_lines :: "string list"
  err_lines :: "string list"

definition print_out :: "string \<Rightarrow> world \<Rightarrow> world" where
  "print_out s w = w\<lparr>out_lines := out_lines w @ [s]\<rparr>"

definition print_err :: "string \<Rightarrow> world \<Rightarrow> world" where
  "print_err s w = w\<lparr>err_lines := err_lines w @ [s]\<rparr>"

text \<open>The string allocations, \<open>strdup\<close> and the \<open>malloc\<close> of \<open>b58enc_data\<close>: a copy, or the null pointer.\<close>

definition alloc_string :: "system \<Rightarrow> string \<Rightarrow> world \<Rightarrow> string option \<times> world" where
  "alloc_string sys s w =
     (if alloc_ok sys (allocs w) then Some s else None, w\<lparr>allocs := Suc (allocs w)\<rparr>)"

text \<open>The number of \<open>secp256k1\<close> contexts that are created and not yet destroyed.\<close>

definition context_create :: "world \<Rightarrow> world" where
  "context_create w = w\<lparr>contexts := Suc (contexts w)\<rparr>"

definition context_destroy :: "world \<Rightarrow> world" where
  "context_destroy w = w\<lparr>contexts := contexts w - 1\<rparr>"

lemma context_destroy_create [simp]: "context_destroy (context_create w) = w"
  by (simp add: context_create_def context_destroy_def)

lemma print_simps [simp]:
  "mem (print_out s w) = mem w" "mem (print_err s w) = mem w"
  "contexts (print_out s w) = contexts w" "contexts (print_err s w) = contexts w"
  "out_lines (print_out s w) = out_lines w @ [s]" "out_lines (print_err s w) = out_lines w"
  "err_lines (print_err s w) = err_lines w @ [s]" "err_lines (print_out s w) = err_lines w"
  "do_use_prng (print_out s w) = do_use_prng w" "do_use_prng (print_err s w) = do_use_prng w"
  "allocs (print_out s w) = allocs w" "allocs (print_err s w) = allocs w"
  by (simp_all add: print_out_def print_err_def)

text \<open>What a function that handles keys may change of the world: the streams and the
  allocation counter, with every context it created destroyed.\<close>

definition quiet :: "world \<Rightarrow> world \<Rightarrow> bool" where
  "quiet w w' \<longleftrightarrow> mem w' = mem w \<and> contexts w' = contexts w \<and> do_use_prng w' = do_use_prng w \<and>
     clock_calls w' = clock_calls w \<and> rnd_calls w' = rnd_calls w"

lemma quiet_refl [simp, intro]: "quiet w w"
  by (simp add: quiet_def)

lemma quiet_trans: "quiet w w' \<Longrightarrow> quiet w' w'' \<Longrightarrow> quiet w w''"
  by (simp add: quiet_def)

lemma quiet_print [simp]: "quiet w (print_out s w') = quiet w w'" "quiet w (print_err s w') = quiet w w'"
  by (simp_all add: quiet_def print_out_def print_err_def)

text \<open>What a random source leaves alone.\<close>

definition same_output :: "world \<Rightarrow> world \<Rightarrow> bool" where
  "same_output w w' \<longleftrightarrow> out_lines w' = out_lines w \<and> contexts w' = contexts w \<and> allocs w' = allocs w"

lemma same_output_refl [simp]: "same_output w w"
  by (simp add: same_output_def)

lemma same_output_trans: "same_output w w' \<Longrightarrow> same_output w' w'' \<Longrightarrow> same_output w w''"
  by (simp add: same_output_def)

lemma same_output_print_err [simp]: "same_output w (print_err s w') = same_output w w'"
  by (simp add: same_output_def)

lemma quiet_alloc_string: "alloc_string sys s w = (r, w') \<Longrightarrow> quiet w w' \<and> out_lines w' = out_lines w \<and> err_lines w' = err_lines w"
  by (auto simp: alloc_string_def quiet_def)

section \<open>A sample system\<close>

definition sample_system :: system where
  "sample_system = \<lparr>time_of_day = (\<lambda>n. (1700000000 + of_nat n, 5)), process_id = 4242,
     os_random = (\<lambda>n k. Some (replicate k (of_nat n + 7))), alloc_ok = (\<lambda>n. True)\<rparr>"

definition sample_world :: world where
  "sample_world = \<lparr>mem = sample_memory, do_use_prng = False, clock_calls = 0, rnd_calls = 0,
     allocs = 0, contexts = 0, out_lines = [], err_lines = []\<rparr>"

end
