(* ===== verification/Ec_Helper.thy ===== *)
theory Ec_Helper
  imports World
begin

text \<open>
  The key helpers of \<open>src/ec_helper.c\<close>.  The two libraries they call, libbase58 and
  libsecp256k1, are parameters: the record \<open>ec_lib\<close> holds the functions used, with the
  contents of output arguments as results.  A function that may abort the program, or compute
  an address outside its buffer, returns an option; \<open>None\<close> is either of the two.
\<close>

section \<open>The libraries\<close>

text \<open>
  \<open>b58tobin n txt\<close> is the decoder on a buffer of \<open>n\<close> bytes: the buffer's contents and the
  number of bytes decoded, which stand at its end.  \<open>b58enc n data\<close> is the encoder on a text
  buffer of \<open>n\<close> characters: the text and its size with the terminating zero.  The
  \<open>secp256k1\<close> functions return their result and what they leave in the output argument.
\<close>

record ec_lib =
  b58tobin :: "nat \<Rightarrow> string \<Rightarrow> (u8 list \<times> nat) option"
  b58enc :: "nat \<Rightarrow> u8 list \<Rightarrow> (string \<times> nat) option"
  ec_seckey_verify :: "u8 list \<Rightarrow> bool"
  ec_pubkey_create :: "u8 list \<Rightarrow> bool \<times> u8 list"
  ec_pubkey_parse :: "u8 list \<Rightarrow> bool \<times> u8 list"
  ec_pubkey_serialize :: "u8 list \<Rightarrow> bool \<times> u8 list \<times> nat"

section \<open>Messages\<close>

fun show_nat :: "nat \<Rightarrow> string" where
  "show_nat n = (if n < 10 then [char_of (48 + n)] else show_nat (n div 10) @ [char_of (48 + n mod 10)])"

declare show_nat.simps [simp del]

definition hex_digit :: "nat \<Rightarrow> char" where
  "hex_digit n = (if n < 10 then char_of (48 + n) else char_of (87 + n))"

definition show_hex2 :: "u8 \<Rightarrow> string" where
  "show_hex2 b = [hex_digit (unat b div 16), hex_digit (unat b mod 16)]"

text \<open>\<open>assure_error_desc_empty\<close> of \<open>src/common.c\<close>: abort unless the description is still null.\<close>

definition assure_error_desc_empty :: "string option \<Rightarrow> unit option" where
  "assure_error_desc_empty error_desc = (if error_desc \<noteq> None then None else Some ())"

text \<open>\<open>buf + (sizeof(buf) - dsz)\<close>, read from there on.\<close>

definition buffer_tail :: "u8 list \<Rightarrow> nat \<Rightarrow> u8 list option" where
  "buffer_tail buf dsz = (if dsz > length buf then None else Some (drop (length buf - dsz) buf))"

section \<open>Decoding keys\<close>

text \<open>
  The results: the world, the returned flag, and the contents of the three output arguments.
  The public key argument may be the null pointer, \<open>None\<close>.
\<close>

definition decode_b58_privkey ::
    "ec_lib \<Rightarrow> world \<Rightarrow> string \<Rightarrow> u8 list \<Rightarrow> u8 list option \<Rightarrow> string option
      \<Rightarrow> (world \<times> bool \<times> u8 list \<times> u8 list option \<times> string option) option" where
  "decode_b58_privkey lib w encoded_key private_key_data public_key_data error_desc = do {
     assure_error_desc_empty error_desc;
     let sz = length encoded_key;
     if sz > 44 then
       Some (w, False, private_key_data, public_key_data,
         Some (''b58-encoded private key is too large (max 44 b58 digits), got: '' @ encoded_key @
           '' ('' @ show_nat sz @ '' digits)''))
     else case b58tobin lib 44 encoded_key of
       None \<Rightarrow> Some (w, False, private_key_data, public_key_data,
         Some ''wrong b58-encoded private key: bad base58'')
     | Some (buf, dsz) \<Rightarrow> do {
         dptr \<leftarrow> buffer_tail buf dsz;
         if dsz \<noteq> 32 then
           Some (w, False, private_key_data, public_key_data,
             Some (''b58-decoded private key has incorrect length: expected 32 bytes, got: '' @ show_nat dsz))
         else
           let private_key_data = take dsz dptr;
               w = context_create w;
               (result, public_key_data, error_desc) =
                 (if \<not> ec_seckey_verify lib private_key_data then
                    (False, public_key_data, Some ''incorrect b58-decoded private key: bad secp256k1 key'')
                  else case public_key_data of
                    None \<Rightarrow> (True, None, error_desc)
                  | Some _ \<Rightarrow>
                      (case ec_pubkey_create lib private_key_data of
                         (False, pub) \<Rightarrow> (False, Some pub, Some ''failed to create corresponding public key'')
                       | (True, pub) \<Rightarrow> (True, Some pub, error_desc)));
               w = context_destroy w
           in Some (w, result, private_key_data, public_key_data, error_desc)
       }
   }"

definition decode_b58_pubkey ::
    "ec_lib \<Rightarrow> world \<Rightarrow> string \<Rightarrow> u8 list \<Rightarrow> string option
      \<Rightarrow> (world \<times> bool \<times> u8 list \<times> string option) option" where
  "decode_b58_pubkey lib w encoded_key public_key_data error_desc = do {
     assure_error_desc_empty error_desc;
     let sz = length encoded_key;
     if sz > 46 then
       Some (w, False, public_key_data,
         Some (''b58-encoded public key is too large (max 46 b58 digits), got: '' @ encoded_key @
           '' ('' @ show_nat sz @ '' digits)''))
     else case b58tobin lib 46 encoded_key of
       None \<Rightarrow> Some (w, False, public_key_data, Some ''wrong b58-encoded public key: bad base58'')
     | Some (buf, dsz) \<Rightarrow> do {
         dptr \<leftarrow> buffer_tail buf dsz;
         if dsz \<noteq> 33 then
           Some (w, False, public_key_data,
             Some (''b58-decoded public key has incorrect length: expected 32 bytes, got: '' @ show_nat dsz))
         else if dptr ! 0 \<noteq> 0x02 \<and> dptr ! 0 \<noteq> 0x03 then
           Some (w, False, public_key_data,
             Some (''incorrect b58-decoded public key: prefix byte must be 0x02 or 0x03, got: 0x'' @ show_hex2 (dptr ! 0)))
         else
           let w = context_create w;
               (result, public_key_data, error_desc) =
                 (case ec_pubkey_parse lib (take dsz dptr) of
                    (False, pub) \<Rightarrow> (False, pub, Some ''incorrect b58-decoded public key: bad secp256k1 pubkey'')
                  | (True, pub) \<Rightarrow> (True, pub, error_desc));
               w = context_destroy w
           in Some (w, result, public_key_data, error_desc)
       }
   }"

section \<open>Key pairs\<close>

definition privkey_to_pubkey ::
    "ec_lib \<Rightarrow> world \<Rightarrow> u8 list \<Rightarrow> u8 list \<Rightarrow> world \<times> bool \<times> u8 list" where
  "privkey_to_pubkey lib w private_key_data public_key_data =
     (let w = context_create w;
          (result, public_key_data) =
            (if ec_seckey_verify lib private_key_data then ec_pubkey_create lib private_key_data
             else (False, public_key_data));
          w = context_destroy w
      in (w, result, public_key_data))"

text \<open>The local \<open>orig_pubkey\<close> is not initialised; \<open>junk\<close> is what its bytes happen to be.\<close>

definition check_pubkey_belongs_to_privkey ::
    "ec_lib \<Rightarrow> world \<Rightarrow> u8 list \<Rightarrow> u8 list \<Rightarrow> u8 list \<Rightarrow> world \<times> bool" where
  "check_pubkey_belongs_to_privkey lib w junk private_key_data public_key_data =
     (let (w, ok, orig_pubkey) = privkey_to_pubkey lib w private_key_data junk
      in (w, ok \<and> public_key_data = orig_pubkey))"

section \<open>Encoding keys\<close>

definition b58enc_data :: "system \<Rightarrow> ec_lib \<Rightarrow> world \<Rightarrow> u8 list \<Rightarrow> nat \<Rightarrow> string option \<times> world" where
  "b58enc_data sys lib w data sz =
     (case b58enc lib (sz * 2) (take sz data) of
        None \<Rightarrow> (None, w)
      | Some (buf, tsz) \<Rightarrow> alloc_string sys buf w)"

definition privkey_to_b58enc_form :: "system \<Rightarrow> ec_lib \<Rightarrow> world \<Rightarrow> u8 list \<Rightarrow> string option \<times> world" where
  "privkey_to_b58enc_form sys lib w private_key_data = b58enc_data sys lib w private_key_data 32"

definition pubkey_to_b58enc_form :: "system \<Rightarrow> ec_lib \<Rightarrow> world \<Rightarrow> u8 list \<Rightarrow> string option \<times> world" where
  "pubkey_to_b58enc_form sys lib w public_key_data =
     (let w = context_create w;
          (result, w) =
            (case ec_pubkey_serialize lib public_key_data of
               (ok, compressed_pubkey, len) \<Rightarrow>
                 if ok \<and> len = 33 then b58enc_data sys lib w compressed_pubkey 33 else (None, w));
          w = context_destroy w
      in (result, w))"

section \<open>What the code relies on in the libraries\<close>

text \<open>The decoder fills the buffer and counts at most its bytes.\<close>

definition b58_decoder_ok :: "ec_lib \<Rightarrow> bool" where
  "b58_decoder_ok lib \<longleftrightarrow>
     (\<forall>n t buf k. b58tobin lib n t = Some (buf, k) \<longrightarrow> length buf = n \<and> k \<le> n)"

text \<open>The encoder needs no more digits than base 58 needs for the number of bytes, counts the
  terminating zero, and succeeds when that fits in the text buffer.\<close>

definition b58_encoder_ok :: "ec_lib \<Rightarrow> bool" where
  "b58_encoder_ok lib \<longleftrightarrow> (\<forall>n d j. (256::nat) ^ length d \<le> 58 ^ j \<longrightarrow>
     (\<forall>t k. b58enc lib n d = Some (t, k) \<longrightarrow> k = length t + 1 \<and> length t \<le> j) \<and>
     (j < n \<longrightarrow> b58enc lib n d \<noteq> None))"

text \<open>Decoding an encoded text into a large enough buffer gives the bytes back, at its end.\<close>

definition b58_inverse_ok :: "ec_lib \<Rightarrow> bool" where
  "b58_inverse_ok lib \<longleftrightarrow> (\<forall>n m d t k. b58enc lib n d = Some (t, k) \<and> length d \<le> m \<longrightarrow>
     (\<exists>pad. length pad = m - length d \<and> b58tobin lib m t = Some (pad @ d, length d)))"

text \<open>A verified secret key has a public key.\<close>

definition secp_create_ok :: "ec_lib \<Rightarrow> bool" where
  "secp_create_ok lib \<longleftrightarrow> (\<forall>k. length k = 32 \<and> ec_seckey_verify lib k \<longrightarrow> fst (ec_pubkey_create lib k))"

text \<open>The compressed form of a created public key has 33 bytes, starts with 2 or 3, and
  parses to the same key.\<close>

definition secp_compressed_ok :: "ec_lib \<Rightarrow> bool" where
  "secp_compressed_ok lib \<longleftrightarrow> (\<forall>k pub. ec_pubkey_create lib k = (True, pub) \<longrightarrow>
     (\<exists>c. ec_pubkey_serialize lib pub = (True, c, 33) \<and> length c = 33 \<and> (c ! 0 = 2 \<or> c ! 0 = 3) \<and>
       ec_pubkey_parse lib c = (True, pub)))"

definition ec_lib_ok :: "ec_lib \<Rightarrow> bool" where
  "ec_lib_ok lib \<longleftrightarrow> b58_decoder_ok lib \<and> b58_encoder_ok lib \<and> b58_inverse_ok lib \<and>
     secp_create_ok lib \<and> secp_compressed_ok lib"

lemma buffer_tail_ok:
  assumes "b58_decoder_ok lib" and "b58tobin lib n t = Some (buf, k)"
  obtains d where "buffer_tail buf k = Some d" and "length d = k"
proof -
  have "length buf = n" "k \<le> n" using assms unfolding b58_decoder_ok_def by blast+
  then show thesis using that [of "drop (n - k) buf"] by (simp add: buffer_tail_def)
qed

lemma buffer_tail_pad: "length pad = n - length d \<Longrightarrow> length d \<le> n \<Longrightarrow> buffer_tail (pad @ d) (length d) = Some d"
  by (simp add: buffer_tail_def)

lemma b58enc_data_ok:
  assumes lib: "ec_lib_ok lib" and len: "length d = sz" and j: "(256::nat) ^ sz \<le> 58 ^ j" "j < sz * 2"
    and al: "alloc_ok sys (allocs w)" and m: "sz \<le> m"
  shows "\<exists>t w' pad. b58enc_data sys lib w d sz = (Some t, w') \<and> length t \<le> j \<and> quiet w w' \<and>
    out_lines w' = out_lines w \<and> allocs w' = Suc (allocs w) \<and> err_lines w' = err_lines w \<and>
    length pad = m - sz \<and> b58tobin lib m t = Some (pad @ d, sz)"
proof -
  have "b58enc lib (sz * 2) d \<noteq> None"
    using lib j len by (auto simp: ec_lib_ok_def b58_encoder_ok_def)
  then obtain t k where e: "b58enc lib (sz * 2) d = Some (t, k)" by auto
  have "length t \<le> j" using lib e j(1) len by (auto simp: ec_lib_ok_def b58_encoder_ok_def)
  moreover have "\<exists>pad. length pad = m - sz \<and> b58tobin lib m t = Some (pad @ d, sz)"
    using lib e len m unfolding ec_lib_ok_def b58_inverse_ok_def by blast
  ultimately show ?thesis
    using al len e by (auto simp: b58enc_data_def alloc_string_def quiet_def)
qed

lemma b58enc_data_quiet: "b58enc_data sys lib w d sz = (r, w') \<Longrightarrow>
    quiet w w' \<and> out_lines w' = out_lines w \<and> err_lines w' = err_lines w"
  by (auto simp: b58enc_data_def quiet_alloc_string split: option.splits)

lemma privkey_to_pubkey_world [simp]: "fst (privkey_to_pubkey lib w k p) = w"
  by (simp add: privkey_to_pubkey_def Let_def split: prod.splits)

lemma privkey_to_pubkey_eq:
  "privkey_to_pubkey lib w k p =
     (w, if ec_seckey_verify lib k then ec_pubkey_create lib k else (False, p))"
  by (simp add: privkey_to_pubkey_def Let_def split: prod.splits)

lemma decode_privkey_cases:
  assumes "b58_decoder_ok lib"
  shows "\<exists>ok key pub e. decode_b58_privkey lib w txt key0 pub0 None = Some (w, ok, key, pub, e) \<and>
      (ok \<longleftrightarrow> e = None) \<and> (pub = None \<longleftrightarrow> pub0 = None) \<and>
      (ok \<longrightarrow> length txt \<le> 44 \<and> length key = 32 \<and> ec_seckey_verify lib key \<and>
        (\<forall>p. pub = Some p \<longrightarrow> ec_pubkey_create lib key = (True, p)))"
proof (cases "length txt > 44 \<or> b58tobin lib 44 txt = None")
  case True
  then show ?thesis by (auto simp: decode_b58_privkey_def assure_error_desc_empty_def Let_def)
next
  case False
  then obtain buf k where dec: "b58tobin lib 44 txt = Some (buf, k)" by auto
  obtain d where tl: "buffer_tail buf k = Some d" "length d = k" by (rule buffer_tail_ok [OF assms dec])
  show ?thesis
  proof (cases "k = 32")
    case True
    then show ?thesis using False tl
      by (auto simp: decode_b58_privkey_def assure_error_desc_empty_def Let_def dec
          split: option.splits prod.splits bool.splits)
  next
    case False
    then show ?thesis using tl \<open>\<not> (length txt > 44 \<or> b58tobin lib 44 txt = None)\<close>
      by (auto simp: decode_b58_privkey_def assure_error_desc_empty_def Let_def dec)
  qed
qed

lemma decode_pubkey_cases:
  assumes "b58_decoder_ok lib"
  shows "\<exists>ok pub e. decode_b58_pubkey lib w txt pub0 None = Some (w, ok, pub, e) \<and>
      (ok \<longleftrightarrow> e = None) \<and>
      (ok \<longrightarrow> length txt \<le> 46 \<and>
        (\<exists>c. length c = 33 \<and> (c ! 0 = 2 \<or> c ! 0 = 3) \<and> ec_pubkey_parse lib c = (True, pub)))"
proof (cases "length txt > 46 \<or> b58tobin lib 46 txt = None")
  case True
  then show ?thesis by (auto simp: decode_b58_pubkey_def assure_error_desc_empty_def Let_def)
next
  case False
  then obtain buf k where dec: "b58tobin lib 46 txt = Some (buf, k)" by auto
  obtain d where tl: "buffer_tail buf k = Some d" "length d = k" by (rule buffer_tail_ok [OF assms dec])
  show ?thesis
  proof (cases "k = 33")
    case True
    then show ?thesis using False tl
      by (auto simp: decode_b58_pubkey_def assure_error_desc_empty_def Let_def dec
          split: prod.splits bool.splits)
  next
    case False
    then show ?thesis using tl \<open>\<not> (length txt > 46 \<or> b58tobin lib 46 txt = None)\<close>
      by (auto simp: decode_b58_pubkey_def assure_error_desc_empty_def Let_def dec)
  qed
qed

lemma check_pubkey_eq:
  "check_pubkey_belongs_to_privkey lib w junk key pub =
     (w, ec_seckey_verify lib key \<and> ec_pubkey_create lib key = (True, pub))"
  by (cases "ec_pubkey_create lib key") (auto simp: check_pubkey_belongs_to_privkey_def privkey_to_pubkey_eq)

lemma pubkey_to_b58enc_quiet:
  assumes "pubkey_to_b58enc_form sys lib w pub = (r, w')"
  shows "quiet w w' \<and> out_lines w' = out_lines w \<and> err_lines w' = err_lines w"
proof -
  obtain ok c len where ser: "ec_pubkey_serialize lib pub = (ok, c, len)" by (cases "ec_pubkey_serialize lib pub") auto
  obtain r' v where enc: "b58enc_data sys lib (context_create w) c 33 = (r', v)" by fastforce
  from b58enc_data_quiet [OF enc]
  have "quiet w (context_destroy v)" "out_lines (context_destroy v) = out_lines w" "err_lines (context_destroy v) = err_lines w"
    by (auto simp: quiet_def context_create_def context_destroy_def)
  then show ?thesis
    using assms ser enc by (auto simp: pubkey_to_b58enc_form_def Let_def split: if_splits)
qed

text \<open>The texts of a valid key pair, and what the decoders make of them.\<close>

lemma privkey_text:
  assumes "ec_lib_ok lib" and "length key = 32" and "ec_seckey_verify lib key" and "alloc_ok sys (allocs w)"
  obtains t w' pub where "privkey_to_b58enc_form sys lib w key = (Some t, w')" and "length t \<le> 44"
    and "quiet w w'" and "out_lines w' = out_lines w" and "ec_pubkey_create lib key = (True, pub)"
    and "\<And>v key0 pub0. decode_b58_privkey lib v t key0 (Some pub0) None = Some (v, True, key, Some pub, None)"
proof -
  have "(256::nat) ^ 32 \<le> 58 ^ 44" by simp
  from b58enc_data_ok [OF assms(1,2) this _ assms(4), of 44] obtain t w' pad where
    e: "b58enc_data sys lib w key 32 = (Some t, w')" "length t \<le> 44" "quiet w w'" "out_lines w' = out_lines w"
      "length pad = 12" "b58tobin lib 44 t = Some (pad @ key, 32)" by auto
  have "fst (ec_pubkey_create lib key)" using assms by (simp add: ec_lib_ok_def secp_create_ok_def)
  then obtain pub where pub: "ec_pubkey_create lib key = (True, pub)" by (metis prod.collapse)
  have "buffer_tail (pad @ key) 32 = Some key" using buffer_tail_pad [of pad 44 key] e(5) assms(2) by simp
  then have "decode_b58_privkey lib v t key0 (Some pub0) None = Some (v, True, key, Some pub, None)" for v key0 pub0
    using e assms(2,3) pub by (simp add: decode_b58_privkey_def assure_error_desc_empty_def Let_def)
  then show thesis using that e(1-4) pub by (simp add: privkey_to_b58enc_form_def)
qed

lemma pubkey_text:
  assumes "ec_lib_ok lib" and "ec_pubkey_create lib key = (True, pub)" and "alloc_ok sys (allocs w)"
  obtains t w' where "pubkey_to_b58enc_form sys lib w pub = (Some t, w')" and "length t \<le> 46"
    and "quiet w w'" and "out_lines w' = out_lines w"
    and "\<And>v pub0. decode_b58_pubkey lib v t pub0 None = Some (v, True, pub, None)"
proof -
  obtain c where c: "ec_pubkey_serialize lib pub = (True, c, 33)" "length c = 33" "c ! 0 = 2 \<or> c ! 0 = 3"
    "ec_pubkey_parse lib c = (True, pub)"
    using assms(1,2) by (auto simp: ec_lib_ok_def secp_compressed_ok_def)
  have "(256::nat) ^ 33 \<le> 58 ^ 46" by simp
  moreover have "alloc_ok sys (allocs (context_create w))" using assms(3) by (simp add: context_create_def)
  ultimately obtain t w' pad where
    e: "b58enc_data sys lib (context_create w) c 33 = (Some t, w')" "length t \<le> 46" "quiet (context_create w) w'"
      "length pad = 13" "b58tobin lib 46 t = Some (pad @ c, 33)"
    using b58enc_data_ok [OF assms(1) c(2), of 46 sys "context_create w" 46] by auto
  have tl: "buffer_tail (pad @ c) 33 = Some c" using buffer_tail_pad [of pad 46 c] e(4) c(2) by simp
  have dec: "decode_b58_pubkey lib v t pub0 None = Some (v, True, pub, None)" for v pub0
    using e c tl by (auto simp: decode_b58_pubkey_def assure_error_desc_empty_def Let_def)
  have "pubkey_to_b58enc_form sys lib w pub = (Some t, context_destroy w')"
    using e(1) by (simp add: pubkey_to_b58enc_form_def c Let_def)
  then show thesis using that e(2) dec pubkey_to_b58enc_quiet by metis
qed

section \<open>Properties\<close>





text \<open>A public key is found to belong to a private key if and only if the private key is valid
  and the given key is the one created from it; what the uninitialised local held does not
  matter.\<close>

theorem check_pubkey_belongs_correct:
  "check_pubkey_belongs_to_privkey lib w junk key pub =
     (w, ec_seckey_verify lib key \<and> ec_pubkey_create lib key = (True, pub))"
  by (rule check_pubkey_eq)

end
