(* ===== verification/Ec_Sample.thy ===== *)
theory Ec_Sample
  imports Ec_Helper
begin

text \<open>
  A concrete instance of the two key libraries, for the examples: base 58 as the text format
  has it (leading zero bytes as the digit 1, the rest as one number), the range of secret keys
  of the curve, and public keys that are a marked copy of the secret key.  It satisfies
  everything the code relies on.
\<close>

section \<open>Positional digits\<close>

abbreviation is_zero :: "'a::zero \<Rightarrow> bool" where
  "is_zero \<equiv> \<lambda>d. d = 0"

definition from_digits :: "nat \<Rightarrow> nat list \<Rightarrow> nat" where
  "from_digits b ds = foldl (\<lambda>a d. a * b + d) 0 ds"

fun to_digits :: "nat \<Rightarrow> nat \<Rightarrow> nat list" where
  "to_digits b n = (if n = 0 \<or> b < 2 then [] else to_digits b (n div b) @ [n mod b])"

declare to_digits.simps [simp del]

lemma to_digits_0 [simp]: "to_digits b 0 = []"
  by (simp add: to_digits.simps)

lemma to_digits_step: "2 \<le> b \<Longrightarrow> 0 < n \<Longrightarrow> to_digits b n = to_digits b (n div b) @ [n mod b]"
  by (simp add: to_digits.simps [of b n])

lemma from_digits_snoc [simp]: "from_digits b (ds @ [d]) = from_digits b ds * b + d"
  by (simp add: from_digits_def)

lemma from_digits_Nil [simp]: "from_digits b [] = 0"
  by (simp add: from_digits_def)

lemma from_to_digits: "2 \<le> b \<Longrightarrow> from_digits b (to_digits b n) = n"
proof (induction n rule: less_induct)
  case (less n)
  show ?case
  proof (cases "n = 0")
    case False
    then have "n div b < n" using less.prems by simp
    then show ?thesis using less False by (simp add: to_digits_step)
  qed simp
qed

lemma to_digits_Nil: "2 \<le> b \<Longrightarrow> to_digits b n = [] \<longleftrightarrow> n = 0"
  by (cases "n = 0") (simp_all add: to_digits_step)

lemma to_from_digits:
  "2 \<le> b \<Longrightarrow> list_all (\<lambda>d. d < b) ds \<Longrightarrow> to_digits b (from_digits b ds) = dropWhile is_zero ds"
proof (induction ds rule: rev_induct)
  case (snoc d ds)
  then have IH: "to_digits b (from_digits b ds) = dropWhile is_zero ds" and d: "d < b" by auto
  let ?n = "from_digits b ds"
  have zero: "?n = 0 \<longleftrightarrow> dropWhile is_zero ds = []"
    using to_digits_Nil [OF snoc.prems(1), of ?n] IH by simp
  show ?case
  proof (cases "?n * b + d = 0")
    case True
    then have "?n = 0" "d = 0" using snoc.prems(1) by auto
    then show ?thesis using True zero by (simp add: dropWhile_append)
  next
    case False
    then have "to_digits b (?n * b + d) = dropWhile is_zero ds @ [d]"
      using to_digits_step [OF snoc.prems(1), of "?n * b + d"] d IH by simp
    moreover have "dropWhile is_zero (ds @ [d]) = dropWhile is_zero ds @ [d]"
      using False zero by (auto simp: dropWhile_append)
    ultimately show ?thesis by simp
  qed
qed simp

lemma to_digits_less: "2 \<le> b \<Longrightarrow> list_all (\<lambda>d. d < b) (to_digits b n)"
proof (induction n rule: less_induct)
  case (less n)
  show ?case
  proof (cases "n = 0")
    case False
    then have "n div b < n" using less.prems by simp
    then show ?thesis using less False by (simp add: to_digits_step)
  qed simp
qed

lemma to_digits_length: "2 \<le> b \<Longrightarrow> n < b ^ j \<Longrightarrow> length (to_digits b n) \<le> j"
proof (induction j arbitrary: n)
  case (Suc j)
  show ?case
  proof (cases "n = 0")
    case False
    have "n div b < b ^ j" using Suc.prems by (simp add: less_mult_imp_div_less mult.commute)
    then show ?thesis using Suc False by (simp add: to_digits_step)
  qed simp
qed simp

lemma to_digits_no_zero: "2 \<le> b \<Longrightarrow> dropWhile is_zero (to_digits b n) = to_digits b n"
  using to_from_digits [of b "to_digits b n"] to_digits_less [of b n] by (simp add: from_to_digits)

lemma from_digits_less: "list_all (\<lambda>d. d < b) ds \<Longrightarrow> from_digits b ds < b ^ length ds"
proof (induction ds rule: rev_induct)
  case (snoc d ds)
  then have "from_digits b ds + 1 \<le> b ^ length ds" by simp
  then have "(from_digits b ds + 1) * b \<le> b ^ length ds * b" by (rule mult_le_mono1)
  then show ?case using snoc.prems by (simp add: mult.commute)
qed simp

lemma from_digits_zeros: "2 \<le> b \<Longrightarrow> from_digits b (replicate z 0 @ ds) = from_digits b ds"
  by (induction ds rule: rev_induct) (simp_all flip: append_assoc, induction z, simp_all add: from_digits_def)

lemma leading_zeros: "replicate (length (takeWhile is_zero ds)) 0 @ dropWhile is_zero ds = (ds :: nat list)"
  by (induction ds) auto

lemma from_digits_dropWhile: "2 \<le> b \<Longrightarrow> from_digits b (dropWhile is_zero ds) = from_digits b ds"
  using from_digits_zeros [of b "length (takeWhile is_zero ds)" "dropWhile is_zero ds"] by (simp add: leading_zeros)

section \<open>Base 58\<close>

definition b58_alphabet :: string where
  "b58_alphabet = ''123456789ABCDEFGHJKLMNPQRSTUVWXYZabcdefghijkmnopqrstuvwxyz''"

definition b58_index :: "char \<Rightarrow> nat" where
  "b58_index c = length (takeWhile (\<lambda>a. a \<noteq> c) b58_alphabet)"

definition sample_b58enc :: "nat \<Rightarrow> u8 list \<Rightarrow> (string \<times> nat) option" where
  "sample_b58enc n d =
     (let ds = map unat d;
          t = map ((!) b58_alphabet)
                (replicate (length (takeWhile is_zero ds)) 0 @ to_digits 58 (from_digits 256 ds))
      in if length t < n then Some (t, length t + 1) else None)"

definition sample_b58tobin :: "nat \<Rightarrow> string \<Rightarrow> (u8 list \<times> nat) option" where
  "sample_b58tobin n t =
     (let ds = map b58_index t;
          bs = replicate (length (takeWhile is_zero ds)) 0 @ map of_nat (to_digits 256 (from_digits 58 ds))
      in if list_all (\<lambda>d. d < 58) ds \<and> length bs \<le> n
         then Some (replicate (n - length bs) 0 @ bs, length bs) else None)"

lemma b58_index_alphabet: "i < 58 \<Longrightarrow> b58_index (b58_alphabet ! i) = i"
proof -
  have "list_all (\<lambda>i. b58_index (b58_alphabet ! i) = i) [0..<58]" by code_simp
  then show "i < 58 \<Longrightarrow> b58_index (b58_alphabet ! i) = i" by (simp add: list_all_iff)
qed

lemma map_index_alphabet: "list_all (\<lambda>d. d < 58) ds \<Longrightarrow> map b58_index (map ((!) b58_alphabet) ds) = ds"
  by (induction ds) (simp_all add: b58_index_alphabet)

lemma unat_bytes_less: "list_all (\<lambda>d. d < 256) (map unat (d :: u8 list))"
proof -
  have "unat (x :: u8) < 256" for x using unsigned_less [of x, where ?'a = nat] by simp
  then show ?thesis by (simp add: list_all_iff)
qed

lemma takeWhile_zeros:
  "dropWhile is_zero ds = ds \<Longrightarrow> takeWhile is_zero (replicate z (0::nat) @ ds) = replicate z 0"
proof -
  assume "dropWhile is_zero ds = ds"
  then have "takeWhile is_zero ds = []" by (metis append_self_conv2 takeWhile_dropWhile_id)
  then show ?thesis by (induction z) simp_all
qed

lemma sample_b58_inverse:
  assumes "sample_b58enc n d = Some (t, k)" and "length d \<le> m"
  shows "sample_b58tobin m t = Some (replicate (m - length d) 0 @ d, length d)"
proof -
  let ?ds = "map unat d" and ?N = "from_digits 256 (map unat d)"
  define z where "z = length (takeWhile is_zero ?ds)"
  let ?e = "replicate z 0 @ to_digits 58 ?N"
  have t: "t = map ((!) b58_alphabet) ?e"
    using assms(1) by (simp add: sample_b58enc_def Let_def z_def split: if_splits)
  have small: "list_all (\<lambda>d. d < 58) ?e" using to_digits_less [of 58 ?N] by (auto simp: list_all_iff)
  then have idx: "map b58_index t = ?e" unfolding t by (rule map_index_alphabet)
  have "length (takeWhile is_zero ?e) = z"
    using takeWhile_zeros [OF to_digits_no_zero [of 58 ?N], of z] by simp
  moreover have "to_digits 256 (from_digits 58 ?e) = dropWhile is_zero ?ds"
    using to_from_digits [OF _ unat_bytes_less [of d]] by (simp add: from_digits_zeros from_to_digits)
  moreover have "replicate z 0 @ map of_nat (dropWhile is_zero ?ds) = d"
  proof -
    have "map of_nat (replicate z 0 @ dropWhile is_zero ?ds) = map (of_nat :: nat \<Rightarrow> u8) ?ds"
      using leading_zeros [of ?ds] by (simp add: z_def)
    then show ?thesis by (simp add: comp_def)
  qed
  moreover have "z + length (dropWhile is_zero ?ds) = length d"
    using leading_zeros [of ?ds] by (metis length_append length_map length_replicate z_def)
  ultimately show ?thesis
    using small assms(2) by (simp add: sample_b58tobin_def idx Let_def)
qed

lemma sample_b58enc_length:
  fixes d :: "u8 list"
  assumes j: "(256::nat) ^ length d \<le> 58 ^ j"
  shows "length (takeWhile is_zero (map unat d)) + length (to_digits 58 (from_digits 256 (map unat d))) \<le> j"
proof -
  let ?ds = "map unat d"
  define z where "z = length (takeWhile is_zero ?ds)"
  define r where "r = length (dropWhile is_zero ?ds)"
  have n: "length d = z + r"
    using leading_zeros [of ?ds] by (metis length_append length_map length_replicate r_def z_def)
  have "list_all (\<lambda>d. d < 256) (dropWhile is_zero ?ds)"
    using unat_bytes_less [of d] set_dropWhileD [of _ is_zero ?ds] unfolding list_all_iff by blast
  then have less: "from_digits 256 ?ds < 256 ^ r"
    using from_digits_less [of 256 "dropWhile is_zero ?ds"] by (simp add: from_digits_dropWhile r_def)
  have "(58::nat) ^ z * 256 ^ r \<le> 256 ^ z * 256 ^ r" by (intro mult_le_mono1 power_mono) simp_all
  also have "\<dots> = 256 ^ length d" by (simp only: n power_add)
  finally have le: "(58::nat) ^ z * 256 ^ r \<le> 58 ^ j" using j by (rule order_trans)
  then have "(58::nat) ^ z \<le> 58 ^ j"
    by (rule order_trans [rotated]) simp
  then have "z \<le> j" by (rule power_le_imp_le_exp [rotated]) simp
  then have "(58::nat) ^ j = 58 ^ z * 58 ^ (j - z)" by (simp flip: power_add)
  then have "(256::nat) ^ r \<le> 58 ^ (j - z)" using le by simp
  then have "length (to_digits 58 (from_digits 256 ?ds)) \<le> j - z"
    using less by (intro to_digits_length) simp_all
  then show ?thesis using \<open>z \<le> j\<close> by (simp add: z_def)
qed

section \<open>The instance\<close>

definition curve_order :: nat where
  "curve_order = 0xFFFFFFFFFFFFFFFFFFFFFFFFFFFFFFFEBAAEDCE6AF48A03BBFD25E8CD0364141"

definition sample_seckey_verify :: "u8 list \<Rightarrow> bool" where
  "sample_seckey_verify k = (let n = from_digits 256 (map unat k) in 0 < n \<and> n < curve_order)"

definition sample_lib :: ec_lib where
  "sample_lib = \<lparr>b58tobin = sample_b58tobin, b58enc = sample_b58enc,
     ec_seckey_verify = sample_seckey_verify,
     ec_pubkey_create = (\<lambda>k. if sample_seckey_verify k \<and> length k = 32
       then (True, 2 # k @ replicate 31 0) else (False, replicate 64 0)),
     ec_pubkey_parse = (\<lambda>c. (c ! 0 = 2 \<or> c ! 0 = 3, c @ replicate 31 0)),
     ec_pubkey_serialize = (\<lambda>p. (True, take 33 p, 33))\<rparr>"

lemma sample_lib_decoder: "b58_decoder_ok sample_lib"
  by (auto simp: b58_decoder_ok_def sample_lib_def sample_b58tobin_def Let_def split: if_splits)

lemma sample_lib_encoder: "b58_encoder_ok sample_lib"
  unfolding b58_encoder_ok_def
proof (intro allI impI)
  fix n j :: nat and d :: "u8 list"
  assume "(256::nat) ^ length d \<le> 58 ^ j"
  from sample_b58enc_length [OF this]
  show "(\<forall>t k. b58enc sample_lib n d = Some (t, k) \<longrightarrow> k = length t + 1 \<and> length t \<le> j) \<and>
     (j < n \<longrightarrow> b58enc sample_lib n d \<noteq> None)"
    by (auto simp: sample_lib_def sample_b58enc_def Let_def split: if_splits)
qed

lemma sample_lib_inverse: "b58_inverse_ok sample_lib"
  using sample_b58_inverse by (fastforce simp: b58_inverse_ok_def sample_lib_def)

lemma sample_lib_ok: "ec_lib_ok sample_lib"
proof -
  have "secp_create_ok sample_lib" by (simp add: secp_create_ok_def sample_lib_def)
  moreover have "secp_compressed_ok sample_lib"
    by (auto simp: secp_compressed_ok_def sample_lib_def split: if_splits)
  ultimately show ?thesis
    by (simp add: ec_lib_ok_def sample_lib_decoder sample_lib_encoder sample_lib_inverse)
qed

definition sample_key :: "u8 list" where
  "sample_key = replicate 31 0 @ [7]"

lemma sample_key_simps [simp]:
  "length sample_key = 32" "ec_seckey_verify sample_lib sample_key"
  "ec_pubkey_create sample_lib sample_key = (True, 2 # sample_key @ replicate 31 0)"
proof -
  have "from_digits 256 (map unat sample_key) = 7"
    using from_digits_zeros [of 256 31 "[7]"] from_digits_snoc [of 256 "[]" 7] by (simp add: sample_key_def)
  then have "sample_seckey_verify sample_key" by (simp add: sample_seckey_verify_def curve_order_def)
  moreover show "length sample_key = 32" by (simp add: sample_key_def)
  ultimately show "ec_seckey_verify sample_lib sample_key"
    "ec_pubkey_create sample_lib sample_key = (True, 2 # sample_key @ replicate 31 0)"
    by (simp_all add: sample_lib_def)
qed

section \<open>The properties of the key helpers, at this instance\<close>





end
