(* ===== verification/Config.thy ===== *)
theory Config
  imports Ec_Sample
begin

text \<open>
  Loading the configuration, \<open>src/cryptochan_config.c\<close>.  The library libconfig is a parameter:
  the record \<open>libconfig\<close> holds its look-up functions over abstract configurations and
  settings.  An abort of the program, or a null pointer given to a \<open>%s\<close> conversion, is \<open>None\<close>.
\<close>

section \<open>The configuration\<close>

record sock_addr =
  host :: "string option"
  port :: int

record config_client =
  client_present :: bool
  client_listen :: sock_addr
  client_target :: sock_addr
  server_public_key :: "string option"
  server_public_key_data :: "u8 list"

record allowed_client =
  allowed_name :: "string option"
  allowed_public_key :: "string option"
  allowed_public_key_data :: "u8 list"

text \<open>The linked list of allowed clients is a list.\<close>

record config_server =
  server_present :: bool
  server_listen :: sock_addr
  server_target :: sock_addr
  server_clients :: "allowed_client list"

record cryptochan_config =
  private_key :: "string option"
  public_key :: "string option"
  client :: config_client
  server :: config_server
  private_key_data :: "u8 list"
  public_key_data :: "u8 list"

definition zero_sock_addr :: sock_addr where
  "zero_sock_addr = \<lparr>host = None, port = 0\<rparr>"

definition zero_config :: cryptochan_config where
  "zero_config = \<lparr>private_key = None, public_key = None,
     client = \<lparr>client_present = False, client_listen = zero_sock_addr, client_target = zero_sock_addr,
       server_public_key = None, server_public_key_data = replicate 64 0\<rparr>,
     server = \<lparr>server_present = False, server_listen = zero_sock_addr, server_target = zero_sock_addr,
       server_clients = []\<rparr>,
     private_key_data = replicate 32 0, public_key_data = replicate 64 0\<rparr>"

section \<open>The library\<close>

text \<open>\<open>config_read_file\<close> gives the parsed configuration, or the line and text of the error; a
  look-up of a missing setting, or of one of another type, fails.\<close>

record ('c, 's) libconfig =
  config_read_file :: "string \<Rightarrow> 'c + nat \<times> string"
  config_lookup_string :: "'c \<Rightarrow> string \<Rightarrow> string option"
  config_lookup :: "'c \<Rightarrow> string \<Rightarrow> 's option"
  config_setting_lookup :: "'s \<Rightarrow> string \<Rightarrow> 's option"
  config_setting_lookup_string :: "'s \<Rightarrow> string \<Rightarrow> string option"
  config_setting_lookup_int :: "'s \<Rightarrow> string \<Rightarrow> int option"

section \<open>Parsing\<close>

definition quoted :: "string \<Rightarrow> string" where
  "quoted s = CHR 0x60 # s @ [CHR 0x27]"

definition parse_sock_addr ::
    "system \<Rightarrow> ('c, 's) libconfig \<Rightarrow> world \<Rightarrow> 's \<Rightarrow> string \<Rightarrow> sock_addr \<Rightarrow> string option
      \<Rightarrow> (world \<times> bool \<times> sock_addr \<times> string option) option" where
  "parse_sock_addr sys cl w root_setting setting_name cc_sa error_desc = do {
     assure_error_desc_empty error_desc;
     case config_setting_lookup cl root_setting setting_name of
       None \<Rightarrow> Some (w, False, cc_sa, Some (''missing '' @ quoted setting_name @ '' setting''))
     | Some nest_setting \<Rightarrow>
         (case config_setting_lookup_string cl nest_setting ''host'' of
            None \<Rightarrow> Some (w, False, cc_sa,
              Some (''incomplete '' @ quoted setting_name @ '' setting: missing '' @ quoted ''host''))
          | Some str \<Rightarrow>
              let (dup, w) = alloc_string sys str w; cc_sa = cc_sa\<lparr>host := dup\<rparr> in
              if dup = None then Some (print_err ''strdup'' w, False, cc_sa, error_desc)
              else case config_setting_lookup_int cl nest_setting ''port'' of
                None \<Rightarrow>
                  if config_setting_lookup cl nest_setting ''port'' = None
                  then Some (w, False, cc_sa,
                    Some (''incomplete '' @ quoted setting_name @ '' setting: missing '' @ quoted ''host''))
                  else Some (w, False, cc_sa,
                    Some (''incorrect '' @ quoted setting_name @ '' setting: invalid '' @ quoted ''port''))
              | Some n \<Rightarrow> Some (w, True, cc_sa\<lparr>port := n\<rparr>, error_desc))
   }"

text \<open>The two address settings, \<open>listen\<close> then \<open>target\<close>, as parsed for both roles; the second
  only when the first went well.\<close>

definition parse_listen_target ::
    "system \<Rightarrow> ('c, 's) libconfig \<Rightarrow> world \<Rightarrow> 's \<Rightarrow> sock_addr \<Rightarrow> sock_addr
      \<Rightarrow> (world \<times> bool \<times> sock_addr \<times> sock_addr \<times> string option) option" where
  "parse_listen_target sys cl w setting listen target = do {
     (w, ok, listen, nest_error_desc) \<leftarrow> parse_sock_addr sys cl w setting ''listen'' listen None;
     if \<not> ok then Some (w, False, listen, target, nest_error_desc)
     else do {
       (w, ok, target, nest_error_desc) \<leftarrow> parse_sock_addr sys cl w setting ''target'' target nest_error_desc;
       Some (w, ok, listen, target, nest_error_desc)
     }
   }"

definition parse_client ::
    "system \<Rightarrow> ('c, 's) libconfig \<Rightarrow> world \<Rightarrow> 's \<Rightarrow> config_client \<Rightarrow> string option
      \<Rightarrow> (world \<times> bool \<times> config_client \<times> string option) option" where
  "parse_client sys cl w setting cc_client error_desc = do {
     assure_error_desc_empty error_desc;
     (w, ok, listen, target, nest_error_desc) \<leftarrow>
       parse_listen_target sys cl w setting (client_listen cc_client) (client_target cc_client);
     let cc_client = cc_client\<lparr>client_listen := listen, client_target := target\<rparr>;
     if \<not> ok then
       case nest_error_desc of
         Some d \<Rightarrow> Some (w, False, cc_client, Some (''bad '' @ quoted ''client'' @ '' config: '' @ d))
       | None \<Rightarrow> Some (w, False, cc_client, error_desc)
     else Some (w, True, cc_client, error_desc)
   }"

text \<open>The server variant sets the description on an error, but returns true on every path.\<close>

definition parse_server ::
    "system \<Rightarrow> ('c, 's) libconfig \<Rightarrow> world \<Rightarrow> 's \<Rightarrow> config_server \<Rightarrow> string option
      \<Rightarrow> (world \<times> bool \<times> config_server \<times> string option) option" where
  "parse_server sys cl w setting cc_server error_desc = do {
     assure_error_desc_empty error_desc;
     (w, ok, listen, target, nest_error_desc) \<leftarrow>
       parse_listen_target sys cl w setting (server_listen cc_server) (server_target cc_server);
     let cc_server = cc_server\<lparr>server_listen := listen, server_target := target\<rparr>;
     let error_desc =
       (if \<not> ok then
          case nest_error_desc of
            Some d \<Rightarrow> Some (''bad '' @ quoted ''server'' @ '' config: '' @ d)
          | None \<Rightarrow> error_desc
        else error_desc);
     Some (w, True, cc_server, error_desc)
   }"

section \<open>Loading\<close>

text \<open>The stages of \<open>cryptochan_config_load\<close>; each returns whether loading goes on.\<close>

type_synonym load_state = "world \<times> bool \<times> cryptochan_config \<times> string option"

definition in_file :: "string \<Rightarrow> string" where
  "in_file f = '' setting in config file '' @ quoted f"

definition load_private_key ::
    "system \<Rightarrow> ec_lib \<Rightarrow> ('c, 's) libconfig \<Rightarrow> string \<Rightarrow> 'c \<Rightarrow> u8 list \<Rightarrow> world \<Rightarrow> cryptochan_config
      \<Rightarrow> (load_state \<times> u8 list) option" where
  "load_private_key sys lib cl path config orig_pubkey w cc =
     (case config_lookup_string cl config ''private-key'' of
        None \<Rightarrow> Some ((print_err (''Missing private-key'' @ in_file path) w, False, cc, None), orig_pubkey)
      | Some str \<Rightarrow>
          let (dup, w) = alloc_string sys str w; cc = cc\<lparr>private_key := dup\<rparr> in
          (case dup of
             None \<Rightarrow> Some ((print_err ''strdup'' w, False, cc, None), orig_pubkey)
           | Some key \<Rightarrow> do {
               (w, ok, data, pub, error_desc) \<leftarrow>
                 decode_b58_privkey lib w key (private_key_data cc) (Some orig_pubkey) None;
               let cc = cc\<lparr>private_key_data := data\<rparr>;
               if \<not> ok then do {
                 d \<leftarrow> error_desc;
                 Some ((print_err (''Bad private-key'' @ in_file path @ '': '' @ d) w, False, cc, error_desc), the pub)
               }
               else Some ((w, True, cc, error_desc), the pub)
             }))"

definition load_public_key ::
    "system \<Rightarrow> ec_lib \<Rightarrow> ('c, 's) libconfig \<Rightarrow> string \<Rightarrow> 'c \<Rightarrow> u8 list \<Rightarrow> u8 list \<Rightarrow> world
      \<Rightarrow> cryptochan_config \<Rightarrow> string option \<Rightarrow> load_state option" where
  "load_public_key sys lib cl path config orig_pubkey junk w cc error_desc =
     (case config_lookup_string cl config ''public-key'' of
        None \<Rightarrow> Some (w, True, cc, error_desc)
      | Some str \<Rightarrow>
          let (dup, w) = alloc_string sys str w; cc = cc\<lparr>public_key := dup\<rparr> in
          (case dup of
             None \<Rightarrow> Some (print_err ''strdup'' w, False, cc, error_desc)
           | Some key \<Rightarrow> do {
               (w, ok, data, error_desc) \<leftarrow> decode_b58_pubkey lib w key (public_key_data cc) error_desc;
               let cc = cc\<lparr>public_key_data := data\<rparr>;
               if \<not> ok then do {
                 d \<leftarrow> error_desc;
                 Some (print_err (''Bad public-key'' @ in_file path @ '': '' @ d) w, False, cc, error_desc)
               }
               else
                 let (w, belongs) =
                   check_pubkey_belongs_to_privkey lib w junk (private_key_data cc) (public_key_data cc) in
                 if \<not> belongs then
                   let w = print_err (''Bad public-key'' @ in_file path @ '': does not belong to the private key'') w;
                       (orig, w) = pubkey_to_b58enc_form sys lib w orig_pubkey;
                       w = (case orig of
                              Some valid \<Rightarrow> print_err (''  * valid key = '' @ valid) (print_err (''  * given key = '' @ key) w)
                            | None \<Rightarrow> print_err ''ERROR: could not encode valid public key'' w)
                   in Some (w, False, cc, error_desc)
                 else Some (w, True, cc, error_desc)
             }))"

definition load_client ::
    "system \<Rightarrow> ('c, 's) libconfig \<Rightarrow> 'c \<Rightarrow> world \<Rightarrow> cryptochan_config \<Rightarrow> string option \<Rightarrow> load_state option" where
  "load_client sys cl config w cc error_desc =
     (case config_lookup cl config ''client'' of
        None \<Rightarrow> Some (w, True, cc, error_desc)
      | Some setting \<Rightarrow> do {
          (w, ok, c, error_desc) \<leftarrow>
            parse_client sys cl w setting ((client cc)\<lparr>client_present := True\<rparr>) error_desc;
          let cc = cc\<lparr>client := c\<rparr>;
          if \<not> ok then do {
            d \<leftarrow> error_desc;
            Some (print_err (''Failed to load config file: '' @ d) w, False, cc, error_desc)
          }
          else Some (w, True, cc, error_desc)
        })"

definition load_server ::
    "system \<Rightarrow> ('c, 's) libconfig \<Rightarrow> 'c \<Rightarrow> world \<Rightarrow> cryptochan_config \<Rightarrow> string option \<Rightarrow> load_state option" where
  "load_server sys cl config w cc error_desc =
     (case config_lookup cl config ''server'' of
        None \<Rightarrow> Some (w, True, cc, error_desc)
      | Some setting \<Rightarrow> do {
          (w, ok, s, error_desc) \<leftarrow>
            parse_server sys cl w setting ((server cc)\<lparr>server_present := True\<rparr>) error_desc;
          let cc = cc\<lparr>server := s\<rparr>;
          if \<not> ok then do {
            d \<leftarrow> error_desc;
            Some (print_err (''Failed to load config file: '' @ d) w, False, cc, error_desc)
          }
          else Some (w, True, cc, error_desc)
        })"

text \<open>\<open>junk\<close> is what the uninitialised local \<open>orig_pubkey\<close> and the one of the key check hold.\<close>

definition cryptochan_config_load ::
    "system \<Rightarrow> ec_lib \<Rightarrow> ('c, 's) libconfig \<Rightarrow> u8 list \<Rightarrow> world \<Rightarrow> cryptochan_config \<Rightarrow> string
      \<Rightarrow> (world \<times> bool \<times> cryptochan_config) option" where
  "cryptochan_config_load sys lib cl junk w cc path =
     (case config_read_file cl path of
        Inr (line, err) \<Rightarrow>
          Some (print_err (''Error parsing config file '' @ quoted path @ '' at line '' @ show_nat line @
            '': '' @ err) w, False, cc)
      | Inl config \<Rightarrow> do {
          ((w, ok, cc, error_desc), orig_pubkey) \<leftarrow> load_private_key sys lib cl path config junk w cc;
          if \<not> ok then Some (w, False, cc)
          else do {
            (w, ok, cc, error_desc) \<leftarrow> load_public_key sys lib cl path config orig_pubkey junk w cc error_desc;
            if \<not> ok then Some (w, False, cc)
            else do {
              (w, ok, cc, error_desc) \<leftarrow> load_client sys cl config w cc error_desc;
              if \<not> ok then Some (w, False, cc)
              else do {
                (w, ok, cc, error_desc) \<leftarrow> load_server sys cl config w cc error_desc;
                Some (w, ok, cc)
              }
            }
          }
        })"

section \<open>Lemmas on the stages\<close>

lemma assure_None [simp]: "assure_error_desc_empty None = Some ()"
  by (simp add: assure_error_desc_empty_def)

definition sock_addr_found :: "('c, 's) libconfig \<Rightarrow> 's \<Rightarrow> string \<Rightarrow> string \<Rightarrow> int \<Rightarrow> bool" where
  "sock_addr_found cl root name h p \<longleftrightarrow>
     (case config_setting_lookup cl root name of None \<Rightarrow> False
      | Some s \<Rightarrow> config_setting_lookup_string cl s ''host'' = Some h \<and> config_setting_lookup_int cl s ''port'' = Some p)"

lemma parse_sock_addr_result:
  "\<exists>w' ok sa' e. parse_sock_addr sys cl w root name sa None = Some (w', ok, sa', e) \<and> quiet w w' \<and>
     allocs w \<le> allocs w' \<and>
     (ok \<longleftrightarrow> alloc_ok sys (allocs w) \<and> (\<exists>h p. sock_addr_found cl root name h p)) \<and>
     (ok \<longrightarrow> e = None \<and> (\<exists>h p. sock_addr_found cl root name h p \<and> sa' = sa\<lparr>host := Some h, port := p\<rparr>)) \<and>
     (\<not> ok \<longrightarrow> alloc_ok sys (allocs w) \<longrightarrow> e \<noteq> None)"
proof (cases "config_setting_lookup cl root name")
  case None
  then show ?thesis by (auto simp: parse_sock_addr_def sock_addr_found_def intro: exI [of _ False])
next
  case (Some s)
  show ?thesis
  proof (cases "config_setting_lookup_string cl s ''host''")
    case None
    then show ?thesis using Some by (auto simp: parse_sock_addr_def sock_addr_found_def intro: exI [of _ False])
  next
    case str: (Some h)
    show ?thesis
      by (cases "config_setting_lookup_int cl s ''port''")
        (auto simp: parse_sock_addr_def sock_addr_found_def Some str alloc_string_def Let_def quiet_def print_err_def)
  qed
qed

lemma parse_listen_target_result:
  "\<exists>w' ok l t e. parse_listen_target sys cl w setting l0 t0 = Some (w', ok, l, t, e) \<and> quiet w w' \<and>
     (ok \<longrightarrow> e = None \<and> (\<exists>h p. sock_addr_found cl setting ''listen'' h p \<and> l = l0\<lparr>host := Some h, port := p\<rparr>) \<and>
       (\<exists>h p. sock_addr_found cl setting ''target'' h p \<and> t = t0\<lparr>host := Some h, port := p\<rparr>)) \<and>
     (\<not> ok \<longrightarrow> (\<forall>n. alloc_ok sys n) \<longrightarrow> e \<noteq> None)"
proof -
  obtain w1 ok1 l e1 where 1: "parse_sock_addr sys cl w setting ''listen'' l0 None = Some (w1, ok1, l, e1)"
    "quiet w w1" "ok1 \<longrightarrow> e1 = None \<and> (\<exists>h p. sock_addr_found cl setting ''listen'' h p \<and> l = l0\<lparr>host := Some h, port := p\<rparr>)"
    "\<not> ok1 \<longrightarrow> alloc_ok sys (allocs w) \<longrightarrow> e1 \<noteq> None"
    using parse_sock_addr_result [of sys cl w setting "''listen''" l0] by blast
  obtain w2 ok2 t e2 where 2: "parse_sock_addr sys cl w1 setting ''target'' t0 None = Some (w2, ok2, t, e2)"
    "quiet w1 w2" "ok2 \<longrightarrow> e2 = None \<and> (\<exists>h p. sock_addr_found cl setting ''target'' h p \<and> t = t0\<lparr>host := Some h, port := p\<rparr>)"
    "\<not> ok2 \<longrightarrow> alloc_ok sys (allocs w1) \<longrightarrow> e2 \<noteq> None"
    using parse_sock_addr_result [of sys cl w1 setting "''target''" t0] by blast
  show ?thesis
  proof (cases ok1)
    case True
    then have "parse_listen_target sys cl w setting l0 t0 = Some (w2, ok2, l, t, e2)"
      using 1 2(1) by (simp add: parse_listen_target_def)
    then show ?thesis using True 1 2 quiet_trans [OF 1(2) 2(2)] by auto
  next
    case False
    then have "parse_listen_target sys cl w setting l0 t0 = Some (w1, False, l, t0, e1)"
      using 1(1) by (simp add: parse_listen_target_def)
    then show ?thesis using False 1 by auto
  qed
qed

lemma parse_client_result:
  "\<exists>w' ok c e. parse_client sys cl w setting c0 None = Some (w', ok, c, e) \<and> quiet w w' \<and>
     client_present c = client_present c0 \<and>
     (ok \<longrightarrow> e = None \<and>
       (\<exists>h p. sock_addr_found cl setting ''listen'' h p \<and> client_listen c = (client_listen c0)\<lparr>host := Some h, port := p\<rparr>) \<and>
       (\<exists>h p. sock_addr_found cl setting ''target'' h p \<and> client_target c = (client_target c0)\<lparr>host := Some h, port := p\<rparr>)) \<and>
     (\<not> ok \<longrightarrow> (\<forall>n. alloc_ok sys n) \<longrightarrow> e \<noteq> None)"
proof -
  obtain w' ok l t e where "parse_listen_target sys cl w setting (client_listen c0) (client_target c0) = Some (w', ok, l, t, e)"
    "quiet w w'"
    "ok \<longrightarrow> e = None \<and> (\<exists>h p. sock_addr_found cl setting ''listen'' h p \<and> l = (client_listen c0)\<lparr>host := Some h, port := p\<rparr>) \<and>
       (\<exists>h p. sock_addr_found cl setting ''target'' h p \<and> t = (client_target c0)\<lparr>host := Some h, port := p\<rparr>)"
    "\<not> ok \<longrightarrow> (\<forall>n. alloc_ok sys n) \<longrightarrow> e \<noteq> None"
    using parse_listen_target_result [of sys cl w setting "client_listen c0" "client_target c0"] by blast
  then show ?thesis
    by (cases ok; cases e) (auto simp: parse_client_def Let_def)
qed

lemma parse_server_result:
  "\<exists>w' s e. parse_server sys cl w setting s0 None = Some (w', True, s, e) \<and> quiet w w' \<and>
     server_present s = server_present s0"
proof -
  obtain w' ok l t e where "parse_listen_target sys cl w setting (server_listen s0) (server_target s0) = Some (w', ok, l, t, e)"
    "quiet w w'"
    using parse_listen_target_result [of sys cl w setting "server_listen s0" "server_target s0"] by blast
  then show ?thesis
    by (cases ok; cases e) (auto simp: parse_server_def Let_def)
qed

lemma load_private_key_result:
  assumes "b58_decoder_ok lib"
  obtains w' ok cc' e orig where
    "load_private_key sys lib cl path config junk w cc = Some ((w', ok, cc', e), orig)"
    and "quiet w w'" and "client cc' = client cc" and "server cc' = server cc" and "public_key cc' = public_key cc"
    and "ok \<longrightarrow> e = None \<and> private_key cc' = config_lookup_string cl config ''private-key'' \<and> private_key cc' \<noteq> None \<and>
      length (private_key_data cc') = 32 \<and> ec_seckey_verify lib (private_key_data cc') \<and>
      ec_pubkey_create lib (private_key_data cc') = (True, orig)"
proof (cases "config_lookup_string cl config ''private-key''")
  case None
  then show thesis by (intro that) (auto simp: load_private_key_def)
next
  case (Some key)
  define w1 where "w1 = w\<lparr>allocs := Suc (allocs w)\<rparr>"
  have q: "quiet w w1" by (simp add: quiet_def w1_def)
  show thesis
  proof (cases "alloc_ok sys (allocs w)")
    case False
    then have "load_private_key sys lib cl path config junk w cc =
        Some ((print_err ''strdup'' w1, False, cc\<lparr>private_key := None\<rparr>, None), junk)"
      using Some by (simp add: load_private_key_def alloc_string_def Let_def flip: w1_def)
    from that [OF this] q show thesis by simp
  next
    case True
    obtain ok data pub e where dec: "decode_b58_privkey lib w1 key (private_key_data cc) (Some junk) None = Some (w1, ok, data, pub, e)"
      "ok \<longleftrightarrow> e = None" "pub = None \<longleftrightarrow> Some junk = None"
      "ok \<longrightarrow> length key \<le> 44 \<and> length data = 32 \<and> ec_seckey_verify lib data \<and>
        (\<forall>p. pub = Some p \<longrightarrow> ec_pubkey_create lib data = (True, p))"
      using decode_privkey_cases [OF assms, of w1 key "private_key_data cc" "Some junk"] by blast
    then obtain p where p: "pub = Some p" by auto
    show thesis
    proof (cases ok)
      case True
      then have "load_private_key sys lib cl path config junk w cc =
          Some ((w1, True, cc\<lparr>private_key := Some key, private_key_data := data\<rparr>, None), p)"
        using Some \<open>alloc_ok sys (allocs w)\<close> dec(1,2) p
        by (simp add: load_private_key_def alloc_string_def Let_def flip: w1_def)
      from that [OF this] q dec p True Some show thesis by simp
    next
      case False
      then obtain d where "e = Some d" using dec(2) by auto
      then have "load_private_key sys lib cl path config junk w cc =
          Some ((print_err (''Bad private-key'' @ in_file path @ '': '' @ d) w1, False,
            cc\<lparr>private_key := Some key, private_key_data := data\<rparr>, e), p)"
        using Some \<open>alloc_ok sys (allocs w)\<close> dec(1) p False
        by (simp add: load_private_key_def alloc_string_def Let_def flip: w1_def)
      from that [OF this] q show thesis by simp
    qed
  qed
qed

lemma load_public_key_result:
  assumes dec: "b58_decoder_ok lib"
  obtains w' ok cc' e where "load_public_key sys lib cl path config orig junk w cc None = Some (w', ok, cc', e)"
    and "quiet w w'" and "client cc' = client cc" and "server cc' = server cc"
    and "private_key cc' = private_key cc" and "private_key_data cc' = private_key_data cc"
    and "ok \<longrightarrow> e = None \<and> (config_lookup_string cl config ''public-key'' = None \<and> cc' = cc \<or>
      public_key cc' = config_lookup_string cl config ''public-key'' \<and>
      ec_seckey_verify lib (private_key_data cc') \<and>
      ec_pubkey_create lib (private_key_data cc') = (True, public_key_data cc'))"
proof (cases "config_lookup_string cl config ''public-key''")
  case None
  then have "load_public_key sys lib cl path config orig junk w cc None = Some (w, True, cc, None)"
    by (simp add: load_public_key_def)
  from that [OF this] None show thesis by simp
next
  case (Some key)
  define w1 where "w1 = w\<lparr>allocs := Suc (allocs w)\<rparr>"
  have q: "quiet w w1" by (simp add: quiet_def w1_def)
  show thesis
  proof (cases "alloc_ok sys (allocs w)")
    case False
    then have "load_public_key sys lib cl path config orig junk w cc None =
        Some (print_err ''strdup'' w1, False, cc\<lparr>public_key := None\<rparr>, None)"
      using Some by (simp add: load_public_key_def alloc_string_def Let_def flip: w1_def)
    from that [OF this] q show thesis by simp
  next
    case True
    obtain ok data e where d: "decode_b58_pubkey lib w1 key (public_key_data cc) None = Some (w1, ok, data, e)"
      "ok \<longleftrightarrow> e = None"
      using decode_pubkey_cases [OF dec, of w1 key "public_key_data cc"] by blast
    let ?cc = "cc\<lparr>public_key := Some key, public_key_data := data\<rparr>"
    let ?load = "load_public_key sys lib cl path config orig junk w cc None"
    note load = load_public_key_def alloc_string_def Let_def
    show thesis
    proof (cases ok)
      case False
      then obtain t where "e = Some t" using d(2) by auto
      then have "?load = Some (print_err (''Bad public-key'' @ in_file path @ '': '' @ t) w1, False, ?cc, e)"
        using Some True d(1) False by (simp add: load flip: w1_def)
      from that [OF this] q show thesis by simp
    next
      case ok: True
      show thesis
      proof (cases "ec_seckey_verify lib (private_key_data cc) \<and> ec_pubkey_create lib (private_key_data cc) = (True, data)")
        case yes: True
        then have "check_pubkey_belongs_to_privkey lib w1 junk (private_key_data cc) data = (w1, True)"
          by (simp add: check_pubkey_eq)
        then have "?load = Some (w1, True, ?cc, None)"
          using Some True d ok by (simp add: load flip: w1_def)
        from that [OF this] q yes Some show thesis by simp
      next
        case no: False
        then have "check_pubkey_belongs_to_privkey lib w1 junk (private_key_data cc) data = (w1, False)"
          by (simp add: check_pubkey_eq)
        moreover define w2 where "w2 = print_err (''Bad public-key'' @ in_file path @ '': does not belong to the private key'') w1"
        moreover obtain t w3 where enc: "pubkey_to_b58enc_form sys lib w2 orig = (t, w3)" by fastforce
        ultimately obtain w4 where "?load = Some (w4, False, ?cc, None)" and "quiet w3 w4"
          using Some True d ok by (cases t) (auto simp: load simp flip: w1_def)
        moreover have "quiet w1 w3" using pubkey_to_b58enc_quiet [OF enc] by (simp add: w2_def quiet_def print_err_def)
        ultimately show thesis using that [of w4 False ?cc None] q by (auto intro: quiet_trans)
      qed
    qed
  qed
qed

lemma load_client_result:
  obtains (ok) w' ok cc' e where "load_client sys cl config w cc None = Some (w', ok, cc', e)"
    and "quiet w w'" and "server cc' = server cc"
    and "private_key cc' = private_key cc" and "private_key_data cc' = private_key_data cc"
    and "public_key cc' = public_key cc" and "public_key_data cc' = public_key_data cc"
    and "ok \<longrightarrow> e = None \<and> (case config_lookup cl config ''client'' of None \<Rightarrow> client cc' = client cc
      | Some s \<Rightarrow> client_present (client cc') \<and>
        (\<exists>h p. sock_addr_found cl s ''listen'' h p \<and> client_listen (client cc') = (client_listen (client cc))\<lparr>host := Some h, port := p\<rparr>) \<and>
        (\<exists>h p. sock_addr_found cl s ''target'' h p \<and> client_target (client cc') = (client_target (client cc))\<lparr>host := Some h, port := p\<rparr>))"
  | (stuck) "load_client sys cl config w cc None = None" and "\<not> (\<forall>n. alloc_ok sys n)"
proof (cases "config_lookup cl config ''client''")
  case None
  then have "load_client sys cl config w cc None = Some (w, True, cc, None)" by (simp add: load_client_def)
  from ok [OF this] None show thesis by simp
next
  case (Some s)
  obtain w' good c e where p: "parse_client sys cl w s ((client cc)\<lparr>client_present := True\<rparr>) None = Some (w', good, c, e)"
    "quiet w w'" "client_present c"
    "good \<longrightarrow> e = None \<and>
       (\<exists>h p. sock_addr_found cl s ''listen'' h p \<and> client_listen c = (client_listen (client cc))\<lparr>host := Some h, port := p\<rparr>) \<and>
       (\<exists>h p. sock_addr_found cl s ''target'' h p \<and> client_target c = (client_target (client cc))\<lparr>host := Some h, port := p\<rparr>)"
    "\<not> good \<longrightarrow> (\<forall>n. alloc_ok sys n) \<longrightarrow> e \<noteq> None"
  proof -
    define c1 where "c1 = (client cc)\<lparr>client_present := True\<rparr>"
    have c1: "client_present c1 = True" "client_listen c1 = client_listen (client cc)"
      "client_target c1 = client_target (client cc)" by (simp_all add: c1_def)
    show thesis
      using that parse_client_result [of sys cl w s c1] unfolding c1 c1_def [symmetric] by blast
  qed
  show thesis
  proof (cases good)
    case True
    then have "load_client sys cl config w cc None = Some (w', True, cc\<lparr>client := c\<rparr>, None)"
      using Some p by (simp add: load_client_def Let_def)
    from ok [OF this] p True Some show thesis by simp
  next
    case False
    show thesis
    proof (cases e)
      case None
      then have "load_client sys cl config w cc None = None"
        using Some p(1) False by (simp add: load_client_def Let_def)
      then show thesis using stuck p(5) False None by auto
    next
      case e: (Some d)
      then have "load_client sys cl config w cc None =
          Some (print_err (''Failed to load config file: '' @ d) w', False, cc\<lparr>client := c\<rparr>, Some d)"
        using Some p(1) False by (simp add: load_client_def Let_def)
      from ok [OF this] p(2) show thesis by simp
    qed
  qed
qed

lemma load_server_result:
  obtains w' cc' e where "load_server sys cl config w cc None = Some (w', True, cc', e)"
    and "quiet w w'" and "client cc' = client cc" and "private_key cc' = private_key cc"
    and "private_key_data cc' = private_key_data cc"
    and "public_key cc' = public_key cc" and "public_key_data cc' = public_key_data cc"
    and "server_present (server cc') \<longleftrightarrow> server_present (server cc) \<or> config_lookup cl config ''server'' \<noteq> None"
proof (cases "config_lookup cl config ''server''")
  case None
  then have "load_server sys cl config w cc None = Some (w, True, cc, None)" by (simp add: load_server_def)
  from that [OF this] None show thesis by simp
next
  case (Some s)
  obtain w' c e where "parse_server sys cl w s ((server cc)\<lparr>server_present := True\<rparr>) None = Some (w', True, c, e)"
    "quiet w w'" "server_present c"
    using parse_server_result [of sys cl w s "(server cc)\<lparr>server_present := True\<rparr>"] by auto
  then have "load_server sys cl config w cc None = Some (w', True, cc\<lparr>server := c\<rparr>, e)" "quiet w w'" "server_present c"
    using Some by (simp_all add: load_server_def Let_def)
  from that [OF this(1)] this Some show thesis by simp
qed

text \<open>A load that returns true, stage by stage.\<close>

definition addr_found :: "('c, 's) libconfig \<Rightarrow> 's \<Rightarrow> string \<Rightarrow> sock_addr \<Rightarrow> bool" where
  "addr_found cl root name sa \<longleftrightarrow> (\<exists>h. host sa = Some h \<and> sock_addr_found cl root name h (port sa))"

lemma load_cases:
  assumes dec: "b58_decoder_ok lib"
  obtains (stuck) "cryptochan_config_load sys lib cl junk w cc path = None" and "\<not> (\<forall>n. alloc_ok sys n)"
  | (failed) w' cc' where "cryptochan_config_load sys lib cl junk w cc path = Some (w', False, cc')" and "quiet w w'"
      and "server cc' = server cc"
  | (loaded) w' cc' config where "cryptochan_config_load sys lib cl junk w cc path = Some (w', True, cc')" and "quiet w w'"
      and "config_read_file cl path = Inl config"
      and "private_key cc' = config_lookup_string cl config ''private-key''" and "private_key cc' \<noteq> None"
      and "length (private_key_data cc') = 32" and "ec_seckey_verify lib (private_key_data cc')"
      and "config_lookup_string cl config ''public-key'' = None \<and> public_key cc' = public_key cc \<or>
        public_key cc' = config_lookup_string cl config ''public-key'' \<and>
        ec_pubkey_create lib (private_key_data cc') = (True, public_key_data cc')"
      and "case config_lookup cl config ''client'' of None \<Rightarrow> client cc' = client cc
        | Some s \<Rightarrow> client_present (client cc') \<and> addr_found cl s ''listen'' (client_listen (client cc')) \<and>
            addr_found cl s ''target'' (client_target (client cc'))"
      and "server_present (server cc') \<longleftrightarrow> server_present (server cc) \<or> config_lookup cl config ''server'' \<noteq> None"
proof (cases "config_read_file cl path")
  case (Inr r)
  then show thesis using failed by (cases r) (simp add: cryptochan_config_load_def)
next
  case (Inl config)
  note load = cryptochan_config_load_def Inl
  obtain w1 ok1 cc1 e1 orig where 1: "load_private_key sys lib cl path config junk w cc = Some ((w1, ok1, cc1, e1), orig)"
    "quiet w w1" "client cc1 = client cc" "server cc1 = server cc" "public_key cc1 = public_key cc"
    "ok1 \<longrightarrow> e1 = None \<and> private_key cc1 = config_lookup_string cl config ''private-key'' \<and> private_key cc1 \<noteq> None \<and>
      length (private_key_data cc1) = 32 \<and> ec_seckey_verify lib (private_key_data cc1) \<and>
      ec_pubkey_create lib (private_key_data cc1) = (True, orig)"
    by (rule load_private_key_result [OF dec, where sys = sys and cl = cl and path = path and config = config
          and junk = junk and w = w and cc = cc])
  show thesis
  proof (cases ok1)
    case False
    then show thesis using failed [of w1 cc1] 1 by (simp add: load)
  next
    case ok1: True
    obtain w2 ok2 cc2 e2 where 2: "load_public_key sys lib cl path config orig junk w1 cc1 None = Some (w2, ok2, cc2, e2)"
      "quiet w1 w2" "client cc2 = client cc1" "server cc2 = server cc1"
      "private_key cc2 = private_key cc1" "private_key_data cc2 = private_key_data cc1"
      "ok2 \<longrightarrow> e2 = None \<and> (config_lookup_string cl config ''public-key'' = None \<and> cc2 = cc1 \<or>
        public_key cc2 = config_lookup_string cl config ''public-key'' \<and>
        ec_seckey_verify lib (private_key_data cc2) \<and>
        ec_pubkey_create lib (private_key_data cc2) = (True, public_key_data cc2))"
      by (rule load_public_key_result [OF dec, where sys = sys and cl = cl and path = path and config = config
          and orig = orig and junk = junk and w = w1 and cc = cc1])
    show thesis
    proof (cases ok2)
      case False
      then show thesis using failed [of w2 cc2] 1 2 ok1 quiet_trans [OF 1(2) 2(2)] by (simp add: load)
    next
      case ok2: True
      show thesis
      proof (cases rule: load_client_result [where sys = sys and cl = cl and config = config and w = w2 and cc = cc2])
        case (ok w3 ok3 cc3 e3)
        have q3: "quiet w w3" using quiet_trans [OF quiet_trans [OF 1(2) 2(2)] ok(2)] .
        show thesis
        proof (cases ok3)
          case False
          then show thesis using failed [of w3 cc3] 1 2 ok ok1 ok2 q3 by (simp add: load)
        next
          case ok3: True
          obtain w4 cc4 e4 where 4: "load_server sys cl config w3 cc3 None = Some (w4, True, cc4, e4)"
            "quiet w3 w4" "client cc4 = client cc3" "private_key cc4 = private_key cc3"
            "private_key_data cc4 = private_key_data cc3"
            "public_key cc4 = public_key cc3" "public_key_data cc4 = public_key_data cc3"
            "server_present (server cc4) \<longleftrightarrow> server_present (server cc3) \<or> config_lookup cl config ''server'' \<noteq> None"
            by (rule load_server_result [where sys = sys and cl = cl and config = config and w = w3 and cc = cc3])
          have l: "cryptochan_config_load sys lib cl junk w cc path = Some (w4, True, cc4)"
            using 1(1,6) 2(1,7) ok(1,8) 4(1) ok1 ok2 ok3 by (simp add: load)
          have c: "case config_lookup cl config ''client'' of None \<Rightarrow> client cc4 = client cc
            | Some s \<Rightarrow> client_present (client cc4) \<and> addr_found cl s ''listen'' (client_listen (client cc4)) \<and>
                addr_found cl s ''target'' (client_target (client cc4))"
            using ok(8) ok3 4(3) 1(3) 2(3) by (auto simp: addr_found_def split: option.splits)
          have p: "config_lookup_string cl config ''public-key'' = None \<and> public_key cc4 = public_key cc \<or>
              public_key cc4 = config_lookup_string cl config ''public-key'' \<and>
              ec_pubkey_create lib (private_key_data cc4) = (True, public_key_data cc4)"
            using 2(7) ok2 1(5) ok(5,6,7) 4(5,6,7) by auto
          have k: "private_key cc4 = config_lookup_string cl config ''private-key''" "private_key cc4 \<noteq> None"
            "length (private_key_data cc4) = 32" "ec_seckey_verify lib (private_key_data cc4)"
            using 1(6) 2(5,6) ok(4,5) 4(4,5) ok1 by (metis, metis, metis, metis)
          have "server_present (server cc4) \<longleftrightarrow> server_present (server cc) \<or> config_lookup cl config ''server'' \<noteq> None"
            using 1(4) 2(4) ok(3) 4(8) by simp
          then show thesis by (rule loaded [OF l quiet_trans [OF q3 4(2)] Inl k p c])
        qed
      next
        case stuck': stuck
        then show thesis using stuck 1 2 ok1 ok2 by (simp add: load)
      qed
    qed
  qed
qed

section \<open>A sample library and configurations\<close>

text \<open>Configurations as trees, with the files as an association list.\<close>

datatype setting = StringSetting string | IntSetting int | GroupSetting "(string \<times> setting) list"

fun setting_child :: "setting \<Rightarrow> string \<Rightarrow> setting option" where
  "setting_child (GroupSetting ss) name = map_of ss name"
| "setting_child _ name = None"

definition setting_string :: "setting \<Rightarrow> string \<Rightarrow> string option" where
  "setting_string s name = (case setting_child s name of Some (StringSetting t) \<Rightarrow> Some t | _ \<Rightarrow> None)"

definition setting_int :: "setting \<Rightarrow> string \<Rightarrow> int option" where
  "setting_int s name = (case setting_child s name of Some (IntSetting n) \<Rightarrow> Some n | _ \<Rightarrow> None)"

definition sample_libconfig :: "(string \<times> setting) list \<Rightarrow> (setting, setting) libconfig" where
  "sample_libconfig files = \<lparr>
     config_read_file = (\<lambda>f. case map_of files f of Some s \<Rightarrow> Inl s | None \<Rightarrow> Inr (0, ''file I/O error'')),
     config_lookup_string = setting_string, config_lookup = setting_child,
     config_setting_lookup = setting_child, config_setting_lookup_string = setting_string,
     config_setting_lookup_int = setting_int\<rparr>"

text \<open>A private key that decodes: 31 zero bytes and a 7.\<close>

definition sample_key_text :: string where
  "sample_key_text = replicate 31 (CHR ''1'') @ ''8''"

definition sample_address :: setting where
  "sample_address = GroupSetting [(''host'', StringSetting ''localhost''), (''port'', IntSetting 1194)]"

definition good_config :: setting where
  "good_config = GroupSetting [(''private-key'', StringSetting sample_key_text),
     (''client'', GroupSetting [(''listen'', sample_address), (''target'', sample_address)])]"

text \<open>A server section without its \<open>listen\<close> setting.\<close>

definition bad_server_config :: setting where
  "bad_server_config = GroupSetting [(''private-key'', StringSetting sample_key_text),
     (''server'', GroupSetting [(''target'', sample_address)])]"

definition sample_files :: "(string \<times> setting) list" where
  "sample_files = [(''good'', good_config), (''bad-server'', bad_server_config)]"

lemma sample_key_decodes:
  "decode_b58_privkey sample_lib w sample_key_text key0 (Some pub0) None =
     Some (w, True, sample_key, Some (2 # sample_key @ replicate 31 0), None)"
proof -
  have "sample_b58tobin 44 sample_key_text = Some (replicate 12 0 @ sample_key, 32)"
    unfolding sample_key_text_def sample_key_def by code_simp
  then have "b58tobin sample_lib 44 sample_key_text = Some (replicate 12 0 @ sample_key, 32)"
    by (simp add: sample_lib_def)
  moreover have "buffer_tail (replicate 12 0 @ sample_key) 32 = Some sample_key"
    by (simp add: buffer_tail_def)
  moreover have "length sample_key_text = 32" by (simp add: sample_key_text_def)
  ultimately show ?thesis by (simp add: decode_b58_privkey_def Let_def)
qed

lemma load_good:
  "\<exists>w' cc'. cryptochan_config_load sample_system sample_lib (sample_libconfig sample_files) [] sample_world zero_config ''good'' =
     Some (w', True, cc') \<and> client_present (client cc') \<and> \<not> server_present (server cc')"
  by (simp add: zero_config_def cryptochan_config_load_def load_private_key_def load_public_key_def load_client_def load_server_def
      sample_libconfig_def sample_files_def good_config_def setting_string_def setting_int_def alloc_string_def
      sample_key_decodes Let_def sample_system_def parse_client_def parse_listen_target_def parse_sock_addr_def
      sample_address_def)

lemma load_bad_server:
  "\<exists>w' cc'. cryptochan_config_load sample_system sample_lib (sample_libconfig sample_files) [] sample_world zero_config ''bad-server'' =
     Some (w', True, cc') \<and> server_present (server cc') \<and> host (server_listen (server cc')) = None"
  by (simp add: cryptochan_config_load_def load_private_key_def load_public_key_def load_client_def load_server_def
      sample_libconfig_def sample_files_def bad_server_config_def setting_string_def setting_int_def alloc_string_def
      sample_key_decodes Let_def sample_system_def parse_server_def parse_listen_target_def parse_sock_addr_def
      zero_config_def zero_sock_addr_def)

section \<open>Properties\<close>







text \<open>C29: An address setting is accepted if and only if it exists, has a string host and an integer
  port, and the host could be copied; then both are taken over.  A refusal is described,
  unless it is the copy that failed.\<close>

theorem parse_sock_addr_correct:
  "\<exists>w' ok sa' e. parse_sock_addr sys cl w root name sa None = Some (w', ok, sa', e) \<and> quiet w w' \<and>
     (ok = (alloc_ok sys (allocs w) \<and> (\<exists>h p. sock_addr_found cl root name h p))) \<and>
     (if ok then e = None \<and> addr_found cl root name sa'
      else if alloc_ok sys (allocs w) then e \<noteq> None else True)"
proof -
  obtain w' ok sa' e where "parse_sock_addr sys cl w root name sa None = Some (w', ok, sa', e)" "quiet w w'"
    "ok \<longleftrightarrow> alloc_ok sys (allocs w) \<and> (\<exists>h p. sock_addr_found cl root name h p)"
    "ok \<longrightarrow> e = None \<and> (\<exists>h p. sock_addr_found cl root name h p \<and> sa' = sa\<lparr>host := Some h, port := p\<rparr>)"
    "\<not> ok \<longrightarrow> alloc_ok sys (allocs w) \<longrightarrow> e \<noteq> None"
    using parse_sock_addr_result [of sys cl w root name sa] by blast
  then show ?thesis
    by (intro exI [of _ w'] exI [of _ ok] exI [of _ sa'] exI [of _ e]) (auto simp: addr_found_def)
qed

text \<open>A failed copy of a host name in the client section leaves the error description empty,
  and the message that reports it formats a null pointer: the load of an otherwise good
  configuration is undefined when its second string allocation fails.\<close>

theorem config_load_null_description:
  "cryptochan_config_load (sample_system\<lparr>alloc_ok := (\<lambda>n. n \<noteq> 1)\<rparr>) sample_lib (sample_libconfig sample_files) []
     sample_world zero_config ''good'' = None"
  by (simp add: cryptochan_config_load_def load_private_key_def load_public_key_def load_client_def
      sample_libconfig_def sample_files_def good_config_def setting_string_def setting_int_def alloc_string_def
      sample_key_decodes Let_def sample_system_def sample_world_def parse_client_def parse_listen_target_def parse_sock_addr_def
      sample_address_def print_err_def)

end
