(* ===== verification/Dispatcher.thy ===== *)
theory Dispatcher
  imports Config
begin

text \<open>
  The listening socket of \<open>src/dispatcher.c\<close> and the two run functions of \<open>src/server.c\<close> and
  \<open>src/client.c\<close>.  The answers of the socket calls are parameters, the record \<open>net_calls\<close>;
  their effects are kept in the record \<open>net\<close>: the sockets that are open, their flags and
  bindings, and the allocations that are not yet freed.
\<close>

section \<open>The network\<close>

text \<open>\<open>struct sockaddr_in\<close>: family, port in network byte order, address.\<close>

record sockaddr_in =
  sin_family :: int
  sin_port :: "16 word"
  sin_addr :: u32

record net_calls =
  addrinfo_of :: "string option \<Rightarrow> int \<times> u32"
  gai_strerror :: "int \<Rightarrow> string"
  socket_fd :: int
  getfl_of :: "int \<Rightarrow> int"
  setfl_of :: "int \<Rightarrow> int \<Rightarrow> int"
  setsockopt_of :: "int \<Rightarrow> int"
  bind_of :: "int \<Rightarrow> sockaddr_in \<Rightarrow> int"

record net =
  open_fds :: "int list"
  fd_flags :: "int \<Rightarrow> int"
  reuse_fds :: "int list"
  bound_fds :: "(int \<times> sockaddr_in) list"
  live_addrinfos :: nat
  live_sockaddrs :: nat

definition O_NONBLOCK :: int where
  "O_NONBLOCK = 0x800"

definition AF_INET :: int where
  "AF_INET = 2"

definition htons :: "16 word \<Rightarrow> 16 word" where
  "htons x = push_bit 8 x OR drop_bit 8 x"

section \<open>The dispatcher\<close>

record dispatcher_context =
  listen_socket_ptr :: "sockaddr_in option"
  listen_sockfd :: int

definition zero_context :: dispatcher_context where
  "zero_context = \<lparr>listen_socket_ptr = None, listen_sockfd = 0\<rparr>"

definition setnonblocking :: "net_calls \<Rightarrow> net \<Rightarrow> int \<Rightarrow> net \<times> bool" where
  "setnonblocking nc n fd =
     (let flags = getfl_of nc fd in
      if flags = - 1 then (n, False)
      else if setfl_of nc fd (flags OR O_NONBLOCK) = - 1 then (n, False)
      else (n\<lparr>fd_flags := (fd_flags n)(fd := flags OR O_NONBLOCK)\<rparr>, True))"

definition close_fd :: "int \<Rightarrow> net \<Rightarrow> net" where
  "close_fd fd n = n\<lparr>open_fds := filter (\<lambda>f. f \<noteq> fd) (open_fds n),
     bound_fds := filter (\<lambda>(f, a). f \<noteq> fd) (bound_fds n)\<rparr>"

definition dispatcher_destroy_context :: "net \<Rightarrow> dispatcher_context \<Rightarrow> net \<times> dispatcher_context" where
  "dispatcher_destroy_context n cntx =
     (let n = (if listen_sockfd cntx > 0 then close_fd (listen_sockfd cntx) n else n);
          n = (if listen_socket_ptr cntx \<noteq> None then n\<lparr>live_sockaddrs := live_sockaddrs n - 1\<rparr> else n)
      in (n, zero_context))"

text \<open>The steps on the socket, up to the first that fails: create, set non-blocking, reuse the
  address, bind.\<close>

definition open_listen_socket ::
    "net_calls \<Rightarrow> world \<Rightarrow> net \<Rightarrow> dispatcher_context \<Rightarrow> sockaddr_in \<Rightarrow> world \<times> net \<times> dispatcher_context \<times> bool" where
  "open_listen_socket nc w n cntx sa =
     (let fd = socket_fd nc; cntx = cntx\<lparr>listen_sockfd := fd\<rparr> in
      if fd = - 1 then (print_err ''dispatcher: socket'' w, n, cntx, False)
      else
        let n = n\<lparr>open_fds := fd # open_fds n\<rparr>; (n, ok) = setnonblocking nc n fd in
        if \<not> ok then (print_err ''dispatcher: setnonblocking'' w, n, cntx, False)
        else if setsockopt_of nc fd \<noteq> 0 then (print_err ''dispatcher: setsockopt(SO_REUSEADDR)'' w, n, cntx, False)
        else
          let n = n\<lparr>reuse_fds := fd # reuse_fds n\<rparr> in
          if bind_of nc fd sa \<noteq> 0 then (print_err ''dispatcher: bind'' w, n, cntx, False)
          else (w, n\<lparr>bound_fds := (fd, sa) # bound_fds n\<rparr>, cntx, True))"

text \<open>A null host in the message of a failed look-up is undefined.\<close>

definition dispatcher_init ::
    "system \<Rightarrow> net_calls \<Rightarrow> world \<Rightarrow> net \<Rightarrow> dispatcher_context \<Rightarrow> sock_addr
      \<Rightarrow> (world \<times> net \<times> dispatcher_context \<times> bool) option" where
  "dispatcher_init sys nc w n cntx bind_conf =
     (let (err, addr) = addrinfo_of nc (host bind_conf) in
      if err \<noteq> 0 then do {
        h \<leftarrow> host bind_conf;
        Some (print_err (''dispatcher: could not resolve bind host address '' @ quoted h @ '': '' @
          gai_strerror nc err) w, n, cntx, False)
      }
      else
        let n = n\<lparr>live_addrinfos := Suc (live_addrinfos n)\<rparr>;
            ok = alloc_ok sys (allocs w); w = w\<lparr>allocs := Suc (allocs w)\<rparr>
        in
        if \<not> ok then Some (print_err ''dispatcher: malloc'' w, n, cntx, False)
        else
          let sa = \<lparr>sin_family = AF_INET, sin_port = htons (of_int (port bind_conf)), sin_addr = addr\<rparr>;
              n = n\<lparr>live_sockaddrs := Suc (live_sockaddrs n)\<rparr>;
              cntx = zero_context\<lparr>listen_socket_ptr := Some sa\<rparr>;
              (w, n, cntx, result) = open_listen_socket nc w n cntx sa;
              (n, cntx) = (if \<not> result then dispatcher_destroy_context n cntx else (n, cntx))
          in Some (w, n, cntx, result))"

section \<open>The run functions\<close>

definition EXIT_SUCCESS :: int where "EXIT_SUCCESS = 0"
definition EXIT_FAILURE :: int where "EXIT_FAILURE = 1"

text \<open>\<open>junk\<close> is the uninitialised local context.\<close>

definition run_server ::
    "system \<Rightarrow> net_calls \<Rightarrow> dispatcher_context \<Rightarrow> world \<Rightarrow> net \<Rightarrow> cryptochan_config \<Rightarrow> (world \<times> net \<times> int) option" where
  "run_server sys nc junk w n config = do {
     (w, n, cntx, ok) \<leftarrow> dispatcher_init sys nc w n junk (server_listen (server config));
     if \<not> ok then Some (print_err ''Could not init dispatcher. Exiting.'' w, n, EXIT_FAILURE)
     else
       let (n, cntx) = dispatcher_destroy_context n cntx
       in Some (w, n, EXIT_SUCCESS)
   }"

definition run_client :: "world \<Rightarrow> cryptochan_config \<Rightarrow> world \<times> int" where
  "run_client w config = (print_err ''client is not implemented yet.'' w, EXIT_FAILURE)"

section \<open>Outcomes\<close>

text \<open>All socket steps succeed.\<close>

definition socket_works :: "net_calls \<Rightarrow> sockaddr_in \<Rightarrow> bool" where
  "socket_works nc sa \<longleftrightarrow> (let fd = socket_fd nc; flags = getfl_of nc fd in
     fd \<noteq> - 1 \<and> flags \<noteq> - 1 \<and> setfl_of nc fd (flags OR O_NONBLOCK) \<noteq> - 1 \<and> setsockopt_of nc fd = 0 \<and>
     bind_of nc fd sa = 0)"

text \<open>The network as it was, except for look-up results that are still allocated, flags and
  options of sockets that are closed.\<close>

definition sockets_restored :: "net \<Rightarrow> net \<Rightarrow> bool" where
  "sockets_restored n n' \<longleftrightarrow> open_fds n' = open_fds n \<and> bound_fds n' = bound_fds n \<and>
     live_sockaddrs n' = live_sockaddrs n"

definition fd_fresh :: "net \<Rightarrow> int \<Rightarrow> bool" where
  "fd_fresh n fd \<longleftrightarrow> fd \<notin> set (open_fds n) \<and> fd \<notin> fst ` set (bound_fds n)"

lemma close_fresh:
  "fd_fresh n fd \<Longrightarrow> filter (\<lambda>f. f \<noteq> fd) (open_fds n) = open_fds n"
  "fd_fresh n fd \<Longrightarrow> filter (\<lambda>(f, a). f \<noteq> fd) (bound_fds n) = bound_fds n"
  by (auto simp: fd_fresh_def filter_id_conv) force

lemma open_listen_socket_ok:
  assumes "socket_works nc sa"
  shows "open_listen_socket nc w n cntx sa =
    (let fd = socket_fd nc in
     (w, n\<lparr>open_fds := fd # open_fds n, fd_flags := (fd_flags n)(fd := getfl_of nc fd OR O_NONBLOCK),
        reuse_fds := fd # reuse_fds n, bound_fds := (fd, sa) # bound_fds n\<rparr>, cntx\<lparr>listen_sockfd := fd\<rparr>, True))"
  using assms by (simp add: open_listen_socket_def socket_works_def setnonblocking_def Let_def)

lemma open_listen_socket_fails:
  assumes "\<not> socket_works nc sa"
  obtains w' n' where "open_listen_socket nc w n cntx sa = (w', n', cntx\<lparr>listen_sockfd := socket_fd nc\<rparr>, False)"
    and "open_fds n' = (if socket_fd nc = - 1 then open_fds n else socket_fd nc # open_fds n)"
    and "bound_fds n' = bound_fds n" and "live_sockaddrs n' = live_sockaddrs n"
    and "live_addrinfos n' = live_addrinfos n"
proof -
  have "case open_listen_socket nc w n cntx sa of (w', n', c', r) \<Rightarrow>
      c' = cntx\<lparr>listen_sockfd := socket_fd nc\<rparr> \<and> \<not> r \<and>
      open_fds n' = (if socket_fd nc = - 1 then open_fds n else socket_fd nc # open_fds n) \<and>
      bound_fds n' = bound_fds n \<and> live_sockaddrs n' = live_sockaddrs n \<and> live_addrinfos n' = live_addrinfos n"
    using assms by (auto simp: open_listen_socket_def socket_works_def setnonblocking_def Let_def)
  then show thesis using that by (auto split: prod.splits)
qed

definition bind_address :: "net_calls \<Rightarrow> sock_addr \<Rightarrow> sockaddr_in" where
  "bind_address nc conf = \<lparr>sin_family = AF_INET, sin_port = htons (of_int (port conf)),
     sin_addr = snd (addrinfo_of nc (host conf))\<rparr>"

text \<open>What a socket descriptor of the system is: new, and -1 or positive.\<close>

definition socket_fd_ok :: "net_calls \<Rightarrow> net \<Rightarrow> bool" where
  "socket_fd_ok nc n \<longleftrightarrow> fd_fresh n (socket_fd nc) \<and> (socket_fd nc = - 1 \<or> 0 < socket_fd nc)"

lemma init_resolved:
  assumes fd: "socket_fd_ok nc n" and a: "fst (addrinfo_of nc (host conf)) = 0" and al: "alloc_ok sys (allocs w)"
  obtains w' n' cntx' r where "dispatcher_init sys nc w n cntx conf = Some (w', n', cntx', r)"
    and "r \<longleftrightarrow> socket_works nc (bind_address nc conf)" and "live_addrinfos n' = Suc (live_addrinfos n)"
    and "r \<longrightarrow> cntx' = \<lparr>listen_socket_ptr = Some (bind_address nc conf), listen_sockfd = socket_fd nc\<rparr> \<and>
      open_fds n' = socket_fd nc # open_fds n \<and> bound_fds n' = (socket_fd nc, bind_address nc conf) # bound_fds n \<and>
      fd_flags n' (socket_fd nc) = getfl_of nc (socket_fd nc) OR O_NONBLOCK \<and>
      socket_fd nc \<in> set (reuse_fds n') \<and> live_sockaddrs n' = Suc (live_sockaddrs n) \<and> 0 < socket_fd nc"
    and "\<not> r \<longrightarrow> cntx' = zero_context \<and> sockets_restored n n'"
proof -
  let ?sa = "bind_address nc conf"
  let ?n = "n\<lparr>live_addrinfos := Suc (live_addrinfos n), live_sockaddrs := Suc (live_sockaddrs n)\<rparr>"
  let ?w = "w\<lparr>allocs := Suc (allocs w)\<rparr>" and ?c = "zero_context\<lparr>listen_socket_ptr := Some ?sa\<rparr>"
  obtain addr where addr: "addrinfo_of nc (host conf) = (0, addr)" using a by (metis prod.collapse)
  have init: "dispatcher_init sys nc w n cntx conf =
      (case open_listen_socket nc ?w ?n ?c ?sa of (w, n, cntx, r) \<Rightarrow>
         if r then Some (w, n, cntx, r)
         else case dispatcher_destroy_context n cntx of (n, cntx) \<Rightarrow> Some (w, n, cntx, r))"
    using al by (simp add: dispatcher_init_def addr bind_address_def Let_def split: prod.splits)
  show thesis
  proof (cases "socket_works nc ?sa")
    case True
    then have "0 < socket_fd nc" using fd by (auto simp: socket_fd_ok_def socket_works_def Let_def)
    with True show thesis
      using that [OF init [unfolded open_listen_socket_ok [OF True] Let_def prod.case if_True]]
      by (simp add: zero_context_def)
  next
    case False
    obtain w' n' where sock: "open_listen_socket nc ?w ?n ?c ?sa = (w', n', ?c\<lparr>listen_sockfd := socket_fd nc\<rparr>, False)"
      "open_fds n' = (if socket_fd nc = - 1 then open_fds ?n else socket_fd nc # open_fds ?n)"
      "bound_fds n' = bound_fds ?n" "live_sockaddrs n' = live_sockaddrs ?n" "live_addrinfos n' = live_addrinfos ?n"
      by (rule open_listen_socket_fails [OF False, of ?w ?n ?c])
    define d where "d = dispatcher_destroy_context n' (?c\<lparr>listen_sockfd := socket_fd nc\<rparr>)"
    have "snd d = zero_context" "sockets_restored n (fst d)" "live_addrinfos (fst d) = Suc (live_addrinfos n)"
      using sock(2-5) fd close_fresh [of n "socket_fd nc"]
      by (auto simp: d_def dispatcher_destroy_context_def Let_def sockets_restored_def socket_fd_ok_def close_fd_def)
    moreover have "dispatcher_init sys nc w n cntx conf = Some (w', fst d, snd d, False)"
      by (simp add: init sock(1) flip: d_def split: prod.splits)
    ultimately show thesis using that [of w' "fst d" "snd d" False] False by simp
  qed
qed

lemma run_server_cases:
  assumes "socket_fd_ok nc n"
  shows "host (server_listen (server config)) = None \<and> run_server sys nc junk w n config = None \<or>
    (\<exists>w' n' code. run_server sys nc junk w n config = Some (w', n', code) \<and> sockets_restored n n' \<and>
    (code = EXIT_SUCCESS \<longleftrightarrow> fst (addrinfo_of nc (host (server_listen (server config)))) = 0 \<and>
       alloc_ok sys (allocs w) \<and> socket_works nc (bind_address nc (server_listen (server config)))) \<and>
    (code = EXIT_SUCCESS \<or> code = EXIT_FAILURE))"
proof -
  let ?conf = "server_listen (server config)"
  note exits = EXIT_SUCCESS_def EXIT_FAILURE_def
  consider (unresolved) "fst (addrinfo_of nc (host ?conf)) \<noteq> 0"
    | (no_memory) "fst (addrinfo_of nc (host ?conf)) = 0" "\<not> alloc_ok sys (allocs w)"
    | (resolved) "fst (addrinfo_of nc (host ?conf)) = 0" "alloc_ok sys (allocs w)" by blast
  then show ?thesis
  proof cases
    case unresolved
    then show ?thesis
      by (cases "addrinfo_of nc (host ?conf)"; cases "host ?conf")
        (auto simp: run_server_def dispatcher_init_def Let_def sockets_restored_def exits)
  next
    case no_memory
    then show ?thesis
      by (cases "addrinfo_of nc (host ?conf)")
        (auto simp: run_server_def dispatcher_init_def Let_def sockets_restored_def exits)
  next
    case resolved
    obtain w' n' cntx' r where i: "dispatcher_init sys nc w n junk ?conf = Some (w', n', cntx', r)"
      "r \<longleftrightarrow> socket_works nc (bind_address nc ?conf)"
      "r \<longrightarrow> cntx' = \<lparr>listen_socket_ptr = Some (bind_address nc ?conf), listen_sockfd = socket_fd nc\<rparr> \<and>
        open_fds n' = socket_fd nc # open_fds n \<and> bound_fds n' = (socket_fd nc, bind_address nc ?conf) # bound_fds n \<and>
        live_sockaddrs n' = Suc (live_sockaddrs n) \<and> 0 < socket_fd nc"
      "\<not> r \<longrightarrow> sockets_restored n n'"
      by (rule init_resolved [OF assms resolved, of junk]) blast
    have "run_server sys nc junk w n config =
        (if r then (case dispatcher_destroy_context n' cntx' of (n, c) \<Rightarrow> Some (w', n, EXIT_SUCCESS))
         else Some (print_err ''Could not init dispatcher. Exiting.'' w', n', EXIT_FAILURE))"
      using i(1) by (simp add: run_server_def Let_def)
    moreover have "sockets_restored n (fst (dispatcher_destroy_context n' cntx'))" if r
      using i(3) that assms close_fresh [of n "socket_fd nc"]
      by (simp add: dispatcher_destroy_context_def sockets_restored_def close_fd_def socket_fd_ok_def)
    ultimately show ?thesis
      using i(2,4) resolved by (auto simp: exits split: prod.splits)
  qed
qed

section \<open>Properties\<close>


text \<open>A network that works, and one whose address is taken.\<close>

definition sample_calls :: net_calls where
  "sample_calls = \<lparr>addrinfo_of = (\<lambda>h. if h = None then (- 2, 0) else (0, 0x7F000001)),
     gai_strerror = (\<lambda>e. ''Name or service not known''), socket_fd = 5, getfl_of = (\<lambda>fd. 2),
     setfl_of = (\<lambda>fd fl. 0), setsockopt_of = (\<lambda>fd. 0), bind_of = (\<lambda>fd sa. 0)\<rparr>"

definition sample_net :: net where
  "sample_net = \<lparr>open_fds = [0, 1, 2], fd_flags = (\<lambda>fd. 0), reuse_fds = [], bound_fds = [],
     live_addrinfos = 0, live_sockaddrs = 0\<rparr>"

definition sample_sock_addr :: sock_addr where
  "sample_sock_addr = \<lparr>host = Some ''0.0.0.0'', port = 11133\<rparr>"

lemma sample_fd_ok: "socket_fd_ok sample_calls sample_net" "socket_fd_ok (sample_calls\<lparr>bind_of := b\<rparr>) sample_net"
  by (simp_all add: socket_fd_ok_def fd_fresh_def sample_calls_def sample_net_def)




text \<open>The descriptor 0 is never closed: when \<open>socket\<close> returns 0, as it does when the standard
  input is closed, and a later step fails, the socket stays open after the clean-up, and
  the context that knew it is zeroed.\<close>

theorem dispatcher_leaks_descriptor_0:
  assumes "socket_fd nc = 0" and "fst (addrinfo_of nc (host conf)) = 0" and "alloc_ok sys (allocs w)"
    and "\<not> socket_works nc (bind_address nc conf)"
  shows "\<exists>w' n'. dispatcher_init sys nc w n cntx conf = Some (w', n', zero_context, False) \<and>
    open_fds n' = 0 # open_fds n"
proof -
  let ?sa = "bind_address nc conf"
  let ?n = "n\<lparr>live_addrinfos := Suc (live_addrinfos n), live_sockaddrs := Suc (live_sockaddrs n)\<rparr>"
  let ?w = "w\<lparr>allocs := Suc (allocs w)\<rparr>" and ?c = "zero_context\<lparr>listen_socket_ptr := Some ?sa\<rparr>"
  obtain addr where addr: "addrinfo_of nc (host conf) = (0, addr)" using assms(2) by (metis prod.collapse)
  obtain w' n' where sock: "open_listen_socket nc ?w ?n ?c ?sa = (w', n', ?c\<lparr>listen_sockfd := socket_fd nc\<rparr>, False)"
    "open_fds n' = (if socket_fd nc = - 1 then open_fds ?n else socket_fd nc # open_fds ?n)"
    by (rule open_listen_socket_fails [OF assms(4), of ?w ?n ?c])
  then show ?thesis
    using assms(1,3) addr
    by (simp add: dispatcher_init_def bind_address_def dispatcher_destroy_context_def Let_def)
qed

theorem dispatcher_leaks_descriptor_0_witness:
  "\<exists>w' n'. dispatcher_init sample_system (sample_calls\<lparr>socket_fd := 0, bind_of := (\<lambda>fd sa. - 1)\<rparr>) sample_world
       (sample_net\<lparr>open_fds := [1, 2]\<rparr>) zero_context sample_sock_addr = Some (w', n', zero_context, False) \<and>
     open_fds n' = [0, 1, 2]"
proof -
  let ?nc = "sample_calls\<lparr>socket_fd := 0, bind_of := (\<lambda>fd sa. - 1)\<rparr>"
  have "socket_fd ?nc = 0" "fst (addrinfo_of ?nc (host sample_sock_addr)) = 0" "alloc_ok sample_system (allocs sample_world)"
    "\<not> socket_works ?nc (bind_address ?nc sample_sock_addr)"
    by (simp_all add: sample_calls_def sample_sock_addr_def sample_system_def socket_works_def)
  from dispatcher_leaks_descriptor_0 [OF this, of "sample_net\<lparr>open_fds := [1, 2]\<rparr>" zero_context] show ?thesis by simp
qed

end
