(* ===== verification/Random_Source.thy ===== *)
theory Random_Source
  imports World
begin

text \<open>
  The random numbers of \<open>src/random.c\<close>: the generator xoshiro128+ with its seeding from time
  and process id, filling a buffer from it, and the loop \<open>fill_random\<close> over a source that may
  deliver less than asked for.  \<open>size_t\<close> and \<open>ssize_t\<close> values are 64-bit words; a comparison
  of the two is unsigned, as in C.
\<close>

section \<open>The generator\<close>

type_synonym xoshiro = "u32 \<times> u32 \<times> u32 \<times> u32"

definition xoshiro128plus :: "xoshiro \<Rightarrow> u32 \<times> xoshiro" where
  "xoshiro128plus state = (case state of (s0, s1, s2, s3) \<Rightarrow>
     let result = s0 + s3;
         t = push_bit 9 s1;
         s2 = s2 XOR s0;
         s3 = s3 XOR s1;
         s1 = s1 XOR s2;
         s0 = s0 XOR s3;
         s2 = s2 XOR t;
         s3 = push_bit 11 s3 OR drop_bit (32 - 11) s3
     in (result, (s0, s1, s2, s3)))"

definition prng_seed :: "u64 \<times> u64 \<Rightarrow> u32 \<Rightarrow> u32" where
  "prng_seed tm pid = (ucast (fst tm) + pid) XOR ucast (snd tm)"

text \<open>The loop \<open>seed = state[i] = seed * 0x1b1 + i\<close> for \<open>i\<close> from 0 to 3.\<close>

definition prng_state :: "u32 \<Rightarrow> xoshiro" where
  "prng_state seed =
     (let s0 = seed * 0x1b1 + 0; s1 = s0 * 0x1b1 + 1; s2 = s1 * 0x1b1 + 2; s3 = s2 * 0x1b1 + 3
      in (s0, s1, s2, s3))"

section \<open>Filling a buffer\<close>

text \<open>The loops may store outside the buffer's object, so they run in the option type.\<close>

partial_function (option) prng_words ::
    "memory \<Rightarrow> ptr \<Rightarrow> u64 \<Rightarrow> u64 \<Rightarrow> xoshiro \<Rightarrow> (memory \<times> u64 \<times> xoshiro) option" where
  "prng_words m buf filled max4 state =
     (if filled < max4 then do {
        m \<leftarrow> store_word m (buf + unat filled) (fst (xoshiro128plus state));
        prng_words m buf (filled + 4) max4 (snd (xoshiro128plus state))
      } else Some (m, filled, state))"

partial_function (option) prng_tail ::
    "memory \<Rightarrow> ptr \<Rightarrow> u64 \<Rightarrow> u64 \<Rightarrow> u32 \<Rightarrow> (memory \<times> u64) option" where
  "prng_tail m buf filled mx next =
     (if filled < mx then do {
        m \<leftarrow> store_bytes m (buf + unat filled) [ucast next];
        prng_tail m buf (filled + 1) mx (drop_bit 8 next)
      } else Some (m, filled))"

definition fill_prng_random :: "system \<Rightarrow> world \<Rightarrow> ptr \<Rightarrow> u64 \<Rightarrow> (world \<times> u64) option" where
  "fill_prng_random sys w buf mx = do {
     let state = prng_state (prng_seed (time_of_day sys (clock_calls w)) (process_id sys));
     let max4 = (mx div 4) * 4;
     (m, filled, state) \<leftarrow> prng_words (mem w) buf 0 max4 state;
     (m, filled) \<leftarrow> (if filled < mx then prng_tail m buf filled mx (fst (xoshiro128plus state))
                    else Some (m, filled));
     Some (w\<lparr>mem := m, clock_calls := Suc (clock_calls w)\<rparr>, filled)
   }"

text \<open>The \<open>getrandom\<close> call with flags 0: the bytes the system delivers are stored, or the
  result is -1.\<close>

definition getrandom :: "system \<Rightarrow> world \<Rightarrow> ptr \<Rightarrow> u64 \<Rightarrow> (world \<times> u64) option" where
  "getrandom sys w buf mx =
     (let w' = w\<lparr>rnd_calls := Suc (rnd_calls w)\<rparr> in
      case os_random sys (rnd_calls w) (unat mx) of
        None \<Rightarrow> Some (w', - 1)
      | Some bs \<Rightarrow> do {
          m \<leftarrow> store_bytes (mem w) buf bs;
          Some (w'\<lparr>mem := m\<rparr>, of_nat (length bs))
        })"

definition set_use_prng :: "bool \<Rightarrow> world \<Rightarrow> world" where
  "set_use_prng use w = w\<lparr>do_use_prng := use\<rparr>"

definition fill_random_next :: "system \<Rightarrow> world \<Rightarrow> ptr \<Rightarrow> u64 \<Rightarrow> (world \<times> u64) option" where
  "fill_random_next sys w buf mx =
     (if do_use_prng w then fill_prng_random sys w buf mx else getrandom sys w buf mx)"

partial_function (option) fill_random_loop ::
    "(world \<Rightarrow> ptr \<Rightarrow> u64 \<Rightarrow> (world \<times> u64) option) \<Rightarrow> world \<Rightarrow> ptr \<Rightarrow> u64 \<Rightarrow> u64 \<Rightarrow> (world \<times> u64) option" where
  "fill_random_loop next w buf filled mx =
     (if filled < mx then do {
        (w, n) \<leftarrow> next w buf (mx - filled);
        if sint n < 0 then Some (print_err ''failed to fill random data'' w, n)
        else fill_random_loop next w (nat (int buf + sint n)) (filled + n) mx
      } else Some (w, filled))"

definition fill_random :: "system \<Rightarrow> world \<Rightarrow> ptr \<Rightarrow> u64 \<Rightarrow> (world \<times> u64) option" where
  "fill_random sys w buf mx = fill_random_loop (fill_random_next sys) w buf 0 mx"

section \<open>The generator is a bijection\<close>

text \<open>The step backwards.\<close>

definition unshift9 :: "u32 \<Rightarrow> u32" where
  "unshift9 y = y XOR push_bit 9 y XOR push_bit 18 y XOR push_bit 27 y"

definition rotl11 :: "u32 \<Rightarrow> u32" where
  "rotl11 x = push_bit 11 x OR drop_bit 21 x"

definition rotr11 :: "u32 \<Rightarrow> u32" where
  "rotr11 x = drop_bit 11 x OR push_bit 21 x"

definition xoshiro_prev :: "xoshiro \<Rightarrow> xoshiro" where
  "xoshiro_prev state = (case state of (a, b, c, d) \<Rightarrow>
     let s3 = rotr11 d; s0 = a XOR s3; s1 = unshift9 (b XOR c); s2 = b XOR s1
     in (s0, s1, s2 XOR s0, s3 XOR s1))"

lemma xor_cancel: "a XOR (a XOR b) = (b :: 'a::len word)" "b XOR (a XOR a) = b"
  by (simp_all flip: xor.assoc)

lemma push_bit_out: "32 \<le> n \<Longrightarrow> push_bit n (x :: u32) = 0"
  by (auto intro: bit_word_eqI simp: bit_simps)

lemma unshift9_shift: "unshift9 (x XOR push_bit 9 x) = x"
  by (simp add: unshift9_def push_bit_xor push_bit_push_bit push_bit_out ac_simps xor_cancel)

lemma shift_unshift9: "unshift9 y XOR push_bit 9 (unshift9 y) = y"
  by (simp add: unshift9_def push_bit_xor push_bit_push_bit push_bit_out ac_simps xor_cancel)

lemma rotr11_rotl11: "rotr11 (rotl11 x) = x"
proof (rule bit_word_eqI)
  fix n assume n: "n < LENGTH(32)"
  have "21 + (n - 21) = n" if "21 \<le> n" using that by simp
  then show "bit (rotr11 (rotl11 x)) n = bit x n"
    using n by (cases "21 \<le> n") (auto simp: rotl11_def rotr11_def bit_simps)
qed

lemma rotl11_rotr11: "rotl11 (rotr11 x) = x"
proof (rule bit_word_eqI)
  fix n assume n: "n < LENGTH(32)"
  have "11 + (n - 11) = n" if "11 \<le> n" using that by simp
  then show "bit (rotl11 (rotr11 x)) n = bit x n"
    using n by (cases "11 \<le> n") (auto simp: rotl11_def rotr11_def bit_simps)
qed

lemma xoshiro_step_eq:
  "snd (xoshiro128plus (s0, s1, s2, s3)) =
     (s0 XOR (s3 XOR s1), s1 XOR (s2 XOR s0), s2 XOR s0 XOR push_bit 9 s1, rotl11 (s3 XOR s1))"
  by (simp add: xoshiro128plus_def Let_def rotl11_def xor.assoc)

lemma xoshiro_prev_step: "xoshiro_prev (snd (xoshiro128plus s)) = s"
proof (cases s)
  case (fields s0 s1 s2 s3)
  have "s1 XOR (s2 XOR s0) XOR (s2 XOR s0 XOR push_bit 9 s1) = s1 XOR push_bit 9 s1"
    by (simp add: ac_simps xor_cancel)
  then have "unshift9 (s1 XOR (s2 XOR s0) XOR (s2 XOR s0 XOR push_bit 9 s1)) = s1"
    by (simp add: unshift9_shift)
  then show ?thesis
    by (simp add: fields xoshiro_prev_def xoshiro_step_eq Let_def rotr11_rotl11 ac_simps xor_cancel)
qed

lemma xoshiro_step_prev: "snd (xoshiro128plus (xoshiro_prev s)) = s"
proof (cases s)
  case (fields a b c d)
  have "b XOR (b XOR c) = push_bit 9 (unshift9 (b XOR c)) XOR (b XOR unshift9 (b XOR c))"
    using shift_unshift9 [of "b XOR c"] by (metis (no_types, lifting) xor.assoc xor.commute)
  then show ?thesis
    by (simp add: fields xoshiro_prev_def xoshiro_step_eq Let_def rotl11_rotr11 ac_simps xor_cancel)
qed

lemma xoshiro_nonzero: "s \<noteq> (0, 0, 0, 0) \<Longrightarrow> snd (xoshiro128plus s) \<noteq> (0, 0, 0, 0)"
proof
  assume s: "s \<noteq> (0, 0, 0, 0)" and "snd (xoshiro128plus s) = (0, 0, 0, 0)"
  then have "s = xoshiro_prev (0, 0, 0, 0)" using xoshiro_prev_step [of s] by simp
  then show False using s by (simp add: xoshiro_prev_def unshift9_def rotr11_def)
qed

section \<open>What the fill loops store\<close>

primrec prng_outputs :: "nat \<Rightarrow> xoshiro \<Rightarrow> u32 list" where
  "prng_outputs 0 s = []"
| "prng_outputs (Suc n) s = fst (xoshiro128plus s) # prng_outputs n (snd (xoshiro128plus s))"

definition prng_advance :: "nat \<Rightarrow> xoshiro \<Rightarrow> xoshiro" where
  "prng_advance n = (snd \<circ> xoshiro128plus) ^^ n"

definition prng_bytes :: "nat \<Rightarrow> xoshiro \<Rightarrow> u8 list" where
  "prng_bytes n s = take n (concat (map bytes_of_word (prng_outputs (Suc (n div 4)) s)))"

lemma prng_advance_Suc: "prng_advance (Suc n) s = prng_advance n (snd (xoshiro128plus s))"
  by (simp add: prng_advance_def funpow_swap1)

lemma prng_advance_0 [simp]: "prng_advance 0 s = s"
  by (simp add: prng_advance_def)

lemma length_prng_outputs [simp]: "length (prng_outputs n s) = n"
  by (induction n arbitrary: s) auto

lemma prng_outputs_snoc: "prng_outputs (Suc n) s = prng_outputs n s @ [fst (xoshiro128plus (prng_advance n s))]"
proof (induction n arbitrary: s)
  case (Suc n)
  show ?case using Suc [of "snd (xoshiro128plus s)"] by (simp add: prng_advance_Suc)
qed simp

lemma length_output_bytes [simp]: "length (concat (map bytes_of_word (prng_outputs n s))) = 4 * n"
  by (induction n arbitrary: s) auto

lemma length_prng_bytes [simp]: "length (prng_bytes n s) = n"
  by (simp add: prng_bytes_def del: prng_outputs.simps)

lemma prng_bytes_split:
  assumes "r < 4"
  shows "prng_bytes (4 * k + r) s = concat (map bytes_of_word (prng_outputs k s)) @
    take r (bytes_of_word (fst (xoshiro128plus (prng_advance k s))))"
proof -
  have "(4 * k + r) div 4 = k" using assms by simp
  then show ?thesis by (simp add: prng_bytes_def prng_outputs_snoc del: prng_outputs.simps)
qed

lemma unat_less_64: "unat (x :: u64) < 2 ^ 64"
  using unsigned_less [of x, where ?'a = nat] by simp

lemma prng_words_result:
  assumes "valid_range m (buf + unat filled) (4 * k)" and "unat mx = unat filled + 4 * k"
  shows "prng_words m buf filled mx s =
    Some (write_bytes m (buf + unat filled) (concat (map bytes_of_word (prng_outputs k s))), mx, prng_advance k s)"
  using assms
proof (induction k arbitrary: m filled s)
  case 0
  then have "filled = mx" by (simp add: word_unat_eq_iff)
  then show ?case by (subst prng_words.simps) simp
next
  case (Suc k)
  let ?w = "fst (xoshiro128plus s)" and ?s = "snd (xoshiro128plus s)"
  let ?m = "write_bytes m (buf + unat filled) (bytes_of_word ?w)"
  have less: "filled < mx" using Suc.prems(2) by (simp add: word_less_nat_alt)
  have "unat filled + 4 < 2 ^ 64" using Suc.prems(2) unat_less_64 [of mx] by simp
  then have nxt: "unat (filled + 4) = unat filled + 4" by (subst unat_add_no_wrap) simp_all
  have "valid_range m (buf + unat filled) 4" using Suc.prems(1) by (rule valid_range_prefix) simp
  then have st: "store_word m (buf + unat filled) ?w = Some ?m" by (simp add: store_word_def mem_simps)
  have "valid_range ?m (buf + unat (filled + 4)) (4 * k)"
    using Suc.prems(1) by (simp add: nxt) (erule valid_range_sub, simp_all)
  then have "prng_words ?m buf (filled + 4) mx ?s = Some (write_bytes ?m (buf + unat (filled + 4))
      (concat (map bytes_of_word (prng_outputs k ?s))), mx, prng_advance k ?s)"
    using Suc.IH [of ?m "filled + 4" ?s] Suc.prems(2) by (simp add: nxt)
  moreover have "write_bytes ?m (buf + unat (filled + 4)) bs = write_bytes m (buf + unat filled) (bytes_of_word ?w @ bs)" for bs
    using write_bytes_append [of m "buf + unat filled" "bytes_of_word ?w" bs] by (simp add: nxt add.assoc)
  ultimately show ?case
    by (subst prng_words.simps) (simp add: less st prng_advance_Suc)
qed

lemma prng_tail_result:
  assumes "valid_range m (buf + unat filled) n" and "unat mx = unat filled + n"
  shows "prng_tail m buf filled mx w =
    Some (write_bytes m (buf + unat filled) (map (\<lambda>i. ucast (drop_bit (8 * i) w)) [0..<n]), mx)"
  using assms
proof (induction n arbitrary: m filled w)
  case 0
  then have "filled = mx" by (simp add: word_unat_eq_iff)
  then show ?case by (subst prng_tail.simps) simp
next
  case (Suc n)
  let ?m = "write_bytes m (buf + unat filled) [ucast w]"
  have less: "filled < mx" using Suc.prems(2) by (simp add: word_less_nat_alt)
  have "unat filled + 1 < 2 ^ 64" using Suc.prems(2) unat_less_64 [of mx] by simp
  then have nxt: "unat (filled + 1) = unat filled + 1" by (subst unat_add_no_wrap) simp_all
  have "valid_range m (buf + unat filled) 1" using Suc.prems(1) by (rule valid_range_prefix) simp
  then have st: "store_bytes m (buf + unat filled) [ucast w] = Some ?m" by (simp add: mem_simps)
  have "valid_range ?m (buf + unat (filled + 1)) n"
    using Suc.prems(1) by (simp add: nxt) (erule valid_range_sub, simp_all)
  then have "prng_tail ?m buf (filled + 1) mx (drop_bit 8 w) = Some (write_bytes ?m (buf + unat (filled + 1))
      (map (\<lambda>i. ucast (drop_bit (8 * i) (drop_bit 8 w))) [0..<n]), mx)"
    using Suc.IH [of ?m "filled + 1"] Suc.prems(2) by (simp add: nxt)
  moreover have "buf + unat (filled + 1) = buf + unat filled + length [ucast w :: u8]" by (simp add: nxt)
  moreover have "map (\<lambda>i. ucast (drop_bit (8 * i) w) :: u8) [0..<Suc n] =
      ucast w # map (\<lambda>i. ucast (drop_bit (8 * i) (drop_bit 8 w))) [0..<n]"
    by (simp add: upt_conv_Cons map_Suc_upt [symmetric] drop_bit_drop_bit add.commute del: upt_Suc)
  ultimately show ?case
    by (subst prng_tail.simps) (simp only: less st write_bytes_append if_True bind.bind_lunit append_Cons append_Nil)
qed

lemma fill_prng_random_result:
  assumes "valid_range (mem w) buf (unat mx)"
  shows "fill_prng_random sys w buf mx =
    Some (w\<lparr>mem := write_bytes (mem w) buf (prng_bytes (unat mx)
            (prng_state (prng_seed (time_of_day sys (clock_calls w)) (process_id sys)))),
          clock_calls := Suc (clock_calls w)\<rparr>, mx)"
proof -
  define s where "s = prng_state (prng_seed (time_of_day sys (clock_calls w)) (process_id sys))"
  define k where "k = unat mx div 4"
  define r where "r = unat mx mod 4"
  have mx: "unat mx = 4 * k + r" and r: "r < 4" by (simp_all add: k_def r_def)
  have "unat (mx div 4) = k" by (simp add: unat_div k_def)
  moreover have "k * 4 < 2 ^ 64" using unat_less_64 [of mx] mx by linarith
  ultimately have mx4: "unat (mx div 4 * 4) = 4 * k"
    by (simp add: unat_word_ariths mult.commute)
  let ?o = "concat (map bytes_of_word (prng_outputs k s))" and ?w = "fst (xoshiro128plus (prng_advance k s))"
  let ?m = "write_bytes (mem w) buf ?o"
  have "valid_range (mem w) buf (4 * k)" using assms by (rule valid_range_prefix) (simp add: mx)
  then have 1: "prng_words (mem w) buf 0 (mx div 4 * 4) s = Some (?m, mx div 4 * 4, prng_advance k s)"
    using prng_words_result [of "mem w" buf 0 k "mx div 4 * 4" s] by (simp add: mx4)
  have vr: "valid_range ?m (buf + unat (mx div 4 * 4)) r"
    using assms by (simp add: mx4) (erule valid_range_sub, simp_all add: mx)
  have 2: "prng_tail ?m buf (mx div 4 * 4) mx ?w = Some (write_bytes ?m (buf + 4 * k) (take r (bytes_of_word ?w)), mx)"
    using prng_tail_result [OF vr, of mx ?w] r by (simp add: mx4 mx bytes_of_word_def take_map)
  have "write_bytes ?m (buf + 4 * k) (take r (bytes_of_word ?w)) = write_bytes (mem w) buf (prng_bytes (unat mx) s)"
    using write_bytes_append [of "mem w" buf ?o "take r (bytes_of_word ?w)"]
    by (simp add: mx prng_bytes_split [OF r])
  moreover have "mx div 4 * 4 < mx \<longleftrightarrow> r \<noteq> 0" by (simp add: word_less_nat_alt mx4 mx)
  moreover have "mx div 4 * 4 = mx" if "r = 0" using that mx mx4 by (simp add: word_unat_eq_iff)
  ultimately show ?thesis
    using 1 2 prng_bytes_split [OF r, of k s]
    by (cases "r = 0") (simp_all add: fill_prng_random_def mx flip: s_def)
qed

section \<open>The loop over a random source\<close>

text \<open>
  What \<open>fill_random\<close> needs of a source: asked for some bytes of a valid range, it either
  reports an error and stores nothing, or stores at least one and at most the bytes asked for
  at the start of the range and returns their number.
\<close>

locale random_source =
  fixes source :: "world \<Rightarrow> ptr \<Rightarrow> u64 \<Rightarrow> (world \<times> u64) option"
    and ready :: "world \<Rightarrow> bool"
  assumes source_law: "ready w \<Longrightarrow> valid_range (mem w) buf (unat mx) \<Longrightarrow> 0 < unat mx \<Longrightarrow> unat mx < 2 ^ 63 \<Longrightarrow>
    \<exists>w' n. source w buf mx = Some (w', n) \<and> same_output w w' \<and>
      (sint n < 0 \<and> mem w' = mem w \<or>
       (\<exists>bs. bs \<noteq> [] \<and> length bs \<le> unat mx \<and> n = of_nat (length bs) \<and>
         mem w' = write_bytes (mem w) buf bs \<and> ready w'))"

lemma sint_of_nat_small: "n < 2 ^ 63 \<Longrightarrow> sint (of_nat n :: u64) = int n"
  by (simp add: signed_of_nat signed_take_bit_int_eq_self)

context random_source
begin

lemma loop_result:
  assumes "ready w" and "valid_range (mem w) buf k" and "unat mx = unat filled + k" and "unat mx < 2 ^ 63"
  shows "\<exists>w' r bs. fill_random_loop source w buf filled mx = Some (w', r) \<and> same_output w w' \<and>
    mem w' = write_bytes (mem w) buf bs \<and>
    (r = mx \<and> length bs = k \<or> sint r < 0 \<and> length bs < k)"
  using assms
proof (induction k arbitrary: w buf filled rule: less_induct)
  case (less k)
  show ?case
  proof (cases "k = 0")
    case True
    then have "filled = mx" using less.prems(3) by (simp add: word_unat_eq_iff)
    then show ?thesis using True
      by (subst fill_random_loop.simps) (auto intro!: exI [of _ "[]"])
  next
    case False
    have lt: "filled < mx" using False less.prems(3) by (simp add: word_less_nat_alt)
    have d: "unat (mx - filled) = k" using less.prems(3) by (subst unat_sub_no_wrap) simp_all
    obtain w1 n where src: "source w buf (mx - filled) = Some (w1, n)" and out: "same_output w w1"
      and alt: "sint n < 0 \<and> mem w1 = mem w \<or>
       (\<exists>bs. bs \<noteq> [] \<and> length bs \<le> k \<and> n = of_nat (length bs) \<and>
         mem w1 = write_bytes (mem w) buf bs \<and> ready w1)"
      using source_law [of w buf "mx - filled"] less.prems False by (auto simp: d)
    from alt show ?thesis
    proof
      assume neg: "sint n < 0 \<and> mem w1 = mem w"
      then have "fill_random_loop source w buf filled mx = Some (print_err ''failed to fill random data'' w1, n)"
        by (subst fill_random_loop.simps) (simp add: lt src)
      then show ?thesis using neg False out by (auto intro!: exI [of _ "[]"])
    next
      assume "\<exists>bs. bs \<noteq> [] \<and> length bs \<le> k \<and> n = of_nat (length bs) \<and>
         mem w1 = write_bytes (mem w) buf bs \<and> ready w1"
      then obtain bs where bs: "bs \<noteq> []" "length bs \<le> k" "n = of_nat (length bs)"
        "mem w1 = write_bytes (mem w) buf bs" "ready w1" by blast
      have small: "length bs < 2 ^ 63" using bs(2) less.prems(3,4) by linarith
      then have n: "sint n = int (length bs)" by (simp add: bs(3) sint_of_nat_small)
      have "unat n = length bs" using small by (simp add: bs(3) unsigned_of_nat take_bit_nat_eq_self)
      then have f: "unat (filled + n) = unat filled + length bs"
        using bs(2) less.prems(3,4) by (subst unat_add_no_wrap) simp_all
      have step: "fill_random_loop source w buf filled mx =
          fill_random_loop source w1 (buf + length bs) (filled + n) mx"
        by (subst fill_random_loop.simps) (simp add: lt src n nat_add_distrib)
      have "k - length bs < k" using bs(1,2) False by (cases bs) auto
      moreover have "valid_range (mem w1) (buf + length bs) (k - length bs)"
        using less.prems(2) bs(2,4) by simp (erule valid_range_sub, simp_all)
      moreover have "unat mx = unat (filled + n) + (k - length bs)" using less.prems(3) f bs(2) by simp
      ultimately obtain w2 r cs where "fill_random_loop source w1 (buf + length bs) (filled + n) mx = Some (w2, r)"
        "same_output w1 w2"
        "mem w2 = write_bytes (mem w1) (buf + length bs) cs"
        "r = mx \<and> length cs = k - length bs \<or> sint r < 0 \<and> length cs < k - length bs"
        using less.IH bs(5) less.prems(4) by blast
      then show ?thesis
        using bs(2) step same_output_trans [OF out, of w2]
        by (auto simp: bs(4) write_bytes_append intro!: exI [of _ "bs @ cs"])
    qed
  qed
qed

end

text \<open>What the code relies on in \<open>getrandom\<close>: an error, or between one byte and the number
  asked for.\<close>

definition os_random_ok :: "system \<Rightarrow> bool" where
  "os_random_ok sys \<longleftrightarrow> (\<forall>n k. 0 < k \<longrightarrow>
     (case os_random sys n k of None \<Rightarrow> True | Some bs \<Rightarrow> bs \<noteq> [] \<and> length bs \<le> k))"

definition random_ready :: "system \<Rightarrow> world \<Rightarrow> bool" where
  "random_ready sys w \<longleftrightarrow> do_use_prng w \<or> os_random_ok sys"

lemma getrandom_law:
  assumes ok: "os_random_ok sys" and vr: "valid_range (mem w) buf (unat mx)" and pos: "0 < unat mx"
  shows "\<exists>w' n. getrandom sys w buf mx = Some (w', n) \<and> same_output w w' \<and>
      (sint n < 0 \<and> mem w' = mem w \<or>
       (\<exists>bs. bs \<noteq> [] \<and> length bs \<le> unat mx \<and> n = of_nat (length bs) \<and>
         mem w' = write_bytes (mem w) buf bs))"
proof (cases "os_random sys (rnd_calls w) (unat mx)")
  case None
  then show ?thesis by (simp add: getrandom_def Let_def same_output_def)
next
  case (Some bs)
  then have bs: "bs \<noteq> []" "length bs \<le> unat mx"
    using ok [unfolded os_random_ok_def, rule_format, OF pos, of "rnd_calls w"] by simp_all
  have "valid_range (mem w) buf (length bs)" using vr bs(2) by (rule valid_range_prefix)
  then have "getrandom sys w buf mx =
      Some (w\<lparr>rnd_calls := Suc (rnd_calls w), mem := write_bytes (mem w) buf bs\<rparr>, of_nat (length bs))"
    by (simp add: getrandom_def Let_def Some mem_simps)
  then show ?thesis using bs by (auto simp: same_output_def)
qed

interpretation rnd: random_source "fill_random_next sys" "random_ready sys" for sys
proof
  fix w :: world and buf :: ptr and mx :: u64
  assume r: "random_ready sys w" and vr: "valid_range (mem w) buf (unat mx)" and mx: "0 < unat mx" "unat mx < 2 ^ 63"
  show "\<exists>w' n. fill_random_next sys w buf mx = Some (w', n) \<and> same_output w w' \<and>
      (sint n < 0 \<and> mem w' = mem w \<or>
       (\<exists>bs. bs \<noteq> [] \<and> length bs \<le> unat mx \<and> n = of_nat (length bs) \<and>
         mem w' = write_bytes (mem w) buf bs \<and> random_ready sys w'))"
  proof (cases "do_use_prng w")
    case True
    define bs where "bs = prng_bytes (unat mx) (prng_state (prng_seed (time_of_day sys (clock_calls w)) (process_id sys)))"
    have len: "length bs = unat mx" by (simp add: bs_def)
    then have "bs \<noteq> []" using mx(1) by auto
    moreover have "mx = of_nat (length bs)" by (simp add: len)
    ultimately show ?thesis
      using True fill_prng_random_result [OF vr, of sys] len
      by (auto simp: fill_random_next_def random_ready_def same_output_def simp flip: bs_def)
  next
    case False
    then have "os_random_ok sys" using r by (simp add: random_ready_def)
    from getrandom_law [OF this vr mx(1)] this False show ?thesis
      by (auto simp: fill_random_next_def random_ready_def)
  qed
qed

lemma fill_random_prng:
  assumes prng: "do_use_prng w" and vr: "valid_range (mem w) buf (unat mx)" and mx: "0 < unat mx" "unat mx < 2 ^ 63"
  shows "fill_random sys w buf mx =
    Some (w\<lparr>mem := write_bytes (mem w) buf (prng_bytes (unat mx)
            (prng_state (prng_seed (time_of_day sys (clock_calls w)) (process_id sys)))),
          clock_calls := Suc (clock_calls w)\<rparr>, mx)"
proof -
  have "sint mx = int (unat mx)" using sint_of_nat_small [OF mx(2)] by simp
  then have "\<not> sint mx < 0" by simp
  moreover have "0 < mx" using mx(1) by (simp add: word_less_nat_alt)
  ultimately show ?thesis
    using fill_prng_random_result [OF vr, of sys] prng
    by (subst fill_random_def, subst fill_random_loop.simps, subst fill_random_loop.simps)
      (simp add: fill_random_next_def)
qed

section \<open>Properties\<close>

text \<open>C20: The state update of xoshiro128+ is a bijection on the 128-bit states: it can be undone
  from the result alone, so no two states run into each other and the generator never loses
  state.\<close>

theorem xoshiro128plus_bijective:
  "xoshiro_prev (snd (xoshiro128plus s)) = s \<and> snd (xoshiro128plus (xoshiro_prev s)) = s \<and>
   bij (\<lambda>s. snd (xoshiro128plus s))"
proof (intro conjI)
  show "bij (\<lambda>s. snd (xoshiro128plus s))"
    by (rule o_bij [of xoshiro_prev]) (simp_all only: fun_eq_iff o_apply id_apply xoshiro_prev_step xoshiro_step_prev simp_thms)
qed (rule xoshiro_prev_step xoshiro_step_prev)+

text \<open>C21: Whatever the clock and the process id are, the seeded generator never enters the
  all-zero state, from which it would only ever produce zeros.\<close>

theorem prng_state_never_zero:
  "prng_advance n (prng_state (prng_seed tm pid)) \<noteq> (0, 0, 0, 0)"
proof -
  have "prng_state seed \<noteq> (0, 0, 0, 0)" for seed
  proof
    define s0 where "s0 = seed * 0x1b1 + 0"
    assume "prng_state seed = (0, 0, 0, 0)"
    then have "s0 = 0" "s0 * 0x1b1 + 1 = 0"
      unfolding prng_state_def Let_def s0_def [symmetric] by blast+
    then show False by simp
  qed
  moreover have "s \<noteq> (0, 0, 0, 0) \<Longrightarrow> prng_advance n s \<noteq> (0, 0, 0, 0)" for s
    by (induction n arbitrary: s) (simp_all add: prng_advance_Suc xoshiro_nonzero)
  ultimately show ?thesis by blast
qed

text \<open>C19: Filling a buffer from the generator stores exactly the requested number of bytes, for
  every length: the little-endian bytes of the successive outputs, the last output cut off
  where the buffer ends; it reads the clock once and returns the number of bytes asked for.\<close>

theorem fill_prng_random_correct:
  assumes "valid_range (mem w) buf (unat mx)"
  shows "fill_prng_random sys w buf mx =
    Some (w\<lparr>mem := write_bytes (mem w) buf (take (unat mx) (concat (map bytes_of_word
            (prng_outputs (Suc (unat mx div 4)) (prng_state (prng_seed (time_of_day sys (clock_calls w)) (process_id sys))))))),
          clock_calls := Suc (clock_calls w)\<rparr>, mx)"
  using fill_prng_random_result [OF assms] by (simp only: prng_bytes_def)

theorem fill_prng_random_correct_witness:
  "\<exists>w'. fill_prng_random sample_system sample_world 1000 7 = Some (w', 7) \<and> clock_calls w' = 1"
proof -
  have "valid_range (mem sample_world) 1000 (unat (7 :: u64))" by (simp add: sample_world_def)
  from fill_prng_random_correct [OF this, of sample_system] show ?thesis
    by (simp add: sample_world_def)
qed

text \<open>C22: With the generator as the source, the program can produce at most 2 to the power of 32
  different keys: over all clocks, process ids and memories, the 32 bytes that \<open>fill_random\<close>
  delivers take at most that many values.\<close>

theorem prng_key_space:
  "card {key. \<exists>sys w w' r. do_use_prng w \<and> valid_range (mem w) buf 32 \<and>
       fill_random sys w buf 32 = Some (w', r) \<and> key = read_bytes (mem w') buf 32} \<le> 2 ^ 32"
proof -
  let ?K = "{key. \<exists>sys w w' r. do_use_prng w \<and> valid_range (mem w) buf 32 \<and>
       fill_random sys w buf 32 = Some (w', r) \<and> key = read_bytes (mem w') buf 32}"
  have "?K \<subseteq> range (\<lambda>seed. prng_bytes 32 (prng_state seed))"
  proof
    fix key assume "key \<in> ?K"
    then obtain sys w w' r where 1: "do_use_prng w" "valid_range (mem w) buf (unat (32 :: u64))"
      "fill_random sys w buf 32 = Some (w', r)" "key = read_bytes (mem w') buf 32" by auto
    from fill_random_prng [OF 1(1,2), of sys] 1(3,4)
    have "key = prng_bytes 32 (prng_state (prng_seed (time_of_day sys (clock_calls w)) (process_id sys)))"
      by auto
    then show "key \<in> range (\<lambda>seed. prng_bytes 32 (prng_state seed))" by blast
  qed
  then have "card ?K \<le> card (range (\<lambda>seed. prng_bytes 32 (prng_state seed)))"
    by (intro card_mono) auto
  also have "\<dots> \<le> card (UNIV :: u32 set)" by (rule card_image_le) simp
  also have "\<dots> = 2 ^ 32" by (simp add: card_word)
  finally show ?thesis .
qed


text \<open>A system whose \<open>getrandom\<close> delivers one byte at a time and fails the third time.\<close>

definition slow_system :: system where
  "slow_system = sample_system\<lparr>os_random := (\<lambda>n k. if n = 2 then None else Some [7])\<rparr>"


end
