(* ===== verification/Cryptochan.thy ===== *)
theory Cryptochan
  imports Dispatcher Random_Source
begin

text \<open>
  The program itself, \<open>src/cryptochan.c\<close>: the argument parser, the key generator and \<open>main\<close>.
  The library \<open>argp\<close> is represented by the sequence of keys it calls the parser with.
\<close>

section \<open>Arguments\<close>

datatype mode = NONE | CLIENT | SERVER | KEYGEN

record arguments =
  mode :: mode
  config_file :: "string option"

text \<open>The keys of \<open>parse_opt\<close>; \<open>Key_Other\<close> is any other key of \<open>argp\<close>.\<close>

datatype argp_key = Key_C string | Key_P | Key_Arg string | Key_End | Key_Other

definition CRYPTOCHAN_DEFAULT_CONFIG_FILE :: string where
  "CRYPTOCHAN_DEFAULT_CONFIG_FILE = ''/etc/cryptochan/cryptochan.conf''"

definition to_lower :: "char \<Rightarrow> char" where
  "to_lower c = (let n = of_char c :: nat in if 65 \<le> n \<and> n \<le> 90 then char_of (n + 32) else c)"

text \<open>\<open>!strcasecmp(a, b)\<close>.\<close>

definition same_ignoring_case :: "string \<Rightarrow> string \<Rightarrow> bool" where
  "same_ignoring_case a b \<longleftrightarrow> map to_lower a = map to_lower b"

definition ARGP_ERR_UNKNOWN :: int where
  "ARGP_ERR_UNKNOWN = 7"

text \<open>\<open>argp_error\<close> prints its message and ends the program: the left summand.\<close>

type_synonym parse_result = "string + world \<times> arguments \<times> int"

definition parse_end :: "world \<Rightarrow> arguments \<Rightarrow> parse_result" where
  "parse_end w args =
     (if mode args = NONE then Inl ''MODE is not specified.''
      else Inr (w, if config_file args = None
                   then args\<lparr>config_file := Some CRYPTOCHAN_DEFAULT_CONFIG_FILE\<rparr> else args, 0))"

text \<open>The case of an argument has no \<open>break\<close>: it goes on with the case of the end.\<close>

definition parse_opt :: "argp_key \<Rightarrow> world \<Rightarrow> arguments \<Rightarrow> parse_result" where
  "parse_opt key w args =
     (case key of
        Key_C arg \<Rightarrow> Inr (w, args\<lparr>config_file := Some arg\<rparr>, 0)
      | Key_P \<Rightarrow> Inr (set_use_prng True w, args, 0)
      | Key_Arg arg \<Rightarrow>
          if mode args \<noteq> NONE then Inl (''Unexpected option: '' @ arg)
          else if same_ignoring_case ''client'' arg then parse_end w (args\<lparr>mode := CLIENT\<rparr>)
          else if same_ignoring_case ''server'' arg then parse_end w (args\<lparr>mode := SERVER\<rparr>)
          else if same_ignoring_case ''keygen'' arg then parse_end w (args\<lparr>mode := KEYGEN\<rparr>)
          else Inl (''Unrecognized mode: '' @ arg)
      | Key_End \<Rightarrow> parse_end w args
      | Key_Other \<Rightarrow> Inr (w, args, ARGP_ERR_UNKNOWN))"

text \<open>\<open>argp_parse\<close>: the parser called with the keys in turn; an unknown key is ignored.\<close>

fun parse_keys :: "argp_key list \<Rightarrow> world \<Rightarrow> arguments \<Rightarrow> string + world \<times> arguments" where
  "parse_keys [] w args = Inr (w, args)"
| "parse_keys (k # ks) w args =
     (case parse_opt k w args of
        Inl e \<Rightarrow> Inl e
      | Inr (w, args, _) \<Rightarrow> parse_keys ks w args)"

section \<open>Key generation\<close>

definition key_line :: "string \<Rightarrow> string \<Rightarrow> string" where
  "key_line name key = name @ '' = '' @ [CHR 0x22] @ key @ [CHR 0x22] @ '';''"

text \<open>\<open>kp\<close> is the address of the local array \<open>private_key_data\<close> and \<open>junk\<close> what the local
  \<open>public_key_data\<close> holds.\<close>

definition keygen_pair ::
    "ec_lib \<Rightarrow> ptr \<Rightarrow> u8 list \<Rightarrow> world \<Rightarrow> (world \<times> bool \<times> u8 list) option" where
  "keygen_pair lib kp junk w = do {
     key \<leftarrow> load_bytes (mem w) kp 32;
     let (w, ok, pub) = privkey_to_pubkey lib w key junk;
     if ok then Some (w, True, pub)
     else do {
       m \<leftarrow> store_bytes (mem w) kp [drop_bit 1 (key ! 0)];
       let w = w\<lparr>mem := m\<rparr>;
       key \<leftarrow> load_bytes (mem w) kp 32;
       let (w, ok, pub) = privkey_to_pubkey lib w key pub;
       Some (w, ok, pub)
     }
   }"

definition keygen_print :: "system \<Rightarrow> ec_lib \<Rightarrow> u8 list \<Rightarrow> u8 list \<Rightarrow> world \<Rightarrow> world" where
  "keygen_print sys lib key pub w =
     (let (private_key, w) = privkey_to_b58enc_form sys lib w key;
          w = (case private_key of
                 Some t \<Rightarrow> print_out (key_line ''private-key'' t) w
               | None \<Rightarrow> print_err ''FATAL: could not encode private key.'' w);
          (public_key, w) = pubkey_to_b58enc_form sys lib w pub;
          w = (case public_key of
                 Some t \<Rightarrow> print_out (key_line ''public-key'' t) w
               | None \<Rightarrow> print_err ''FATAL: could not encode public key.'' w)
      in w)"

definition keygen_display :: "system \<Rightarrow> ec_lib \<Rightarrow> ptr \<Rightarrow> u8 list \<Rightarrow> world \<Rightarrow> (world \<times> int) option" where
  "keygen_display sys lib kp junk w = do {
     (w, n) \<leftarrow> fill_random sys w kp 32;
     if n \<noteq> 32 then Some (print_err ''FATAL: failed to fill random private key data.'' w, EXIT_FAILURE)
     else do {
       (w, ok, pub) \<leftarrow> keygen_pair lib kp junk w;
       if \<not> ok then Some (print_err ''FATAL: could not generate key pair.'' w, EXIT_FAILURE)
       else do {
         key \<leftarrow> load_bytes (mem w) kp 32;
         Some (keygen_print sys lib key pub w, EXIT_SUCCESS)
       }
     }
   }"

section \<open>The main function\<close>

text \<open>Everything outside the program that \<open>main\<close> depends on.\<close>

record ('c, 's) environment =
  env_system :: system
  env_lib :: ec_lib
  env_config :: "('c, 's) libconfig"
  env_net :: net_calls
  key_array :: ptr
  junk_bytes :: "u8 list"
  junk_context :: dispatcher_context

text \<open>The result is the exit code.  An error of the argument parser ends the program with the
  usage exit code 64; \<open>None\<close> is an abort or undefined behaviour.\<close>

definition EX_USAGE :: int where "EX_USAGE = 64"

definition cryptochan_main ::
    "('c, 's) environment \<Rightarrow> argp_key list \<Rightarrow> world \<Rightarrow> net \<Rightarrow> (world \<times> net \<times> int) option" where
  "cryptochan_main env keys w n =
     (case parse_keys keys w \<lparr>mode = NONE, config_file = None\<rparr> of
        Inl e \<Rightarrow> Some (print_err e w, n, EX_USAGE)
      | Inr (w, args) \<Rightarrow>
          if mode args = KEYGEN then do {
            (w, code) \<leftarrow> keygen_display (env_system env) (env_lib env) (key_array env) (junk_bytes env) w;
            Some (w, n, code)
          }
          else do {
            path \<leftarrow> config_file args;
            (w, ok, cc) \<leftarrow> cryptochan_config_load (env_system env) (env_lib env) (env_config env) (junk_bytes env)
                            w zero_config path;
            if \<not> ok then Some (print_err (''Could not load config: '' @ quoted path) w, n, EXIT_FAILURE)
            else case mode args of
              SERVER \<Rightarrow>
                if \<not> server_present (server cc) then
                  Some (print_err (''Cannot run as SERVER: config '' @ quoted path @ '': missing '' @ quoted ''server'') w,
                    n, EXIT_FAILURE)
                else run_server (env_system env) (env_net env) (junk_context env) w n cc
            | CLIENT \<Rightarrow>
                if \<not> client_present (client cc) then
                  Some (print_err (''Cannot run as CLIENT: config '' @ quoted path @ '': missing '' @ quoted ''client'') w,
                    n, EXIT_FAILURE)
                else (case run_client w cc of (w, code) \<Rightarrow> Some (w, n, code))
            | _ \<Rightarrow> None
          })"

section \<open>Parsing the arguments\<close>

lemma same_ignoring_case_refl [simp]: "same_ignoring_case s s"
  by (simp add: same_ignoring_case_def)

definition mode_named :: "string \<Rightarrow> mode" where
  "mode_named arg =
     (if same_ignoring_case ''client'' arg then CLIENT
      else if same_ignoring_case ''server'' arg then SERVER
      else if same_ignoring_case ''keygen'' arg then KEYGEN else NONE)"

definition is_option :: "argp_key \<Rightarrow> bool" where
  "is_option k \<longleftrightarrow> (case k of Key_C _ \<Rightarrow> True | Key_P \<Rightarrow> True | Key_Other \<Rightarrow> True | _ \<Rightarrow> False)"

text \<open>The configuration file the options name: the last one, or what was there before.\<close>

definition config_of :: "argp_key list \<Rightarrow> string option \<Rightarrow> string option" where
  "config_of ks c = fold (\<lambda>k c. case k of Key_C f \<Rightarrow> Some f | _ \<Rightarrow> c) ks c"

definition prng_of :: "argp_key list \<Rightarrow> world \<Rightarrow> world" where
  "prng_of ks w = (if Key_P \<in> set ks then set_use_prng True w else w)"

lemma config_of_Cons: "config_of (k # ks) c = config_of ks (case k of Key_C f \<Rightarrow> Some f | _ \<Rightarrow> c)"
  by (simp add: config_of_def)

lemma config_of_append: "config_of (ks @ ls) c = config_of ls (config_of ks c)"
  by (simp add: config_of_def)

lemma config_of_Some: "config_of ks (Some f) \<noteq> None"
  by (induction ks arbitrary: f) (auto simp: config_of_def split: argp_key.splits)

lemma set_use_prng_twice [simp]: "set_use_prng True (set_use_prng True w) = set_use_prng True w"
  by (simp add: set_use_prng_def)

lemma parse_options:
  "list_all is_option ks \<Longrightarrow> parse_keys (ks @ ls) w args =
     parse_keys ls (prng_of ks w) (args\<lparr>config_file := config_of ks (config_file args)\<rparr>)"
proof (induction ks arbitrary: w args)
  case (Cons k ks)
  then show ?case
    by (cases k) (auto simp: parse_opt_def is_option_def prng_of_def config_of_Cons)
qed (simp add: prng_of_def config_of_def)

lemma parse_opt_arg:
  "mode args = NONE \<Longrightarrow> mode_named a \<noteq> NONE \<Longrightarrow> parse_opt (Key_Arg a) w args = parse_end w (args\<lparr>mode := mode_named a\<rparr>)"
  by (auto simp: parse_opt_def mode_named_def)

lemma config_of_default: "config_of ks c = (case config_of ks None of None \<Rightarrow> c | Some f \<Rightarrow> Some f)"
proof (induction ks arbitrary: c)
  case (Cons k ks)
  show ?case
  proof (cases k)
    case (Key_C f)
    obtain g where "config_of ks (Some f) = Some g" using config_of_Some by blast
    then show ?thesis by (simp add: Key_C config_of_Cons)
  qed (use Cons.IH [of c] in \<open>simp_all add: config_of_Cons\<close>)
qed (simp add: config_of_def)

lemma prng_of_append: "prng_of ls (prng_of ks w) = prng_of (ks @ ls) w"
  by (simp add: prng_of_def)

lemma parse_opt_End:
  "mode args \<noteq> NONE \<Longrightarrow> config_file args = Some c \<Longrightarrow> parse_opt Key_End w args = Inr (w, args, 0)"
  by (simp add: parse_opt_def parse_end_def)

definition the_config :: "string option \<Rightarrow> string" where
  "the_config c = (case c of None \<Rightarrow> CRYPTOCHAN_DEFAULT_CONFIG_FILE | Some f \<Rightarrow> f)"

lemma parse_mode_arg:
  "mode_named a \<noteq> NONE \<Longrightarrow> parse_opt (Key_Arg a) w \<lparr>mode = NONE, config_file = c\<rparr> =
     Inr (w, \<lparr>mode = mode_named a, config_file = Some (the_config c)\<rparr>, 0)"
  by (subst parse_opt_arg) (auto simp: parse_end_def the_config_def split: option.splits)

lemma parse_one_mode:
  assumes "list_all is_option ks" and "list_all is_option ls" and "mode_named a \<noteq> NONE"
  shows "parse_keys (ks @ Key_Arg a # ls @ [Key_End]) w \<lparr>mode = NONE, config_file = None\<rparr> =
    Inr (prng_of (ks @ ls) w, \<lparr>mode = mode_named a, config_file = Some (the_config (config_of (ks @ ls) None))\<rparr>)"
proof -
  let ?c = "config_of ks None"
  note 1 = parse_mode_arg [OF assms(3)]
  have 2: "config_of ls (Some (the_config ?c)) = Some (the_config (config_of (ks @ ls) None))"
    using config_of_default [of ls "Some (the_config ?c)"] config_of_default [of ls ?c]
    by (auto simp: config_of_append the_config_def split: option.splits)
  show ?thesis
    using parse_options [OF assms(1), of "Key_Arg a # ls @ [Key_End]" w "\<lparr>mode = NONE, config_file = None\<rparr>"]
      parse_options [OF assms(2), of "[Key_End]" "prng_of ks w" "\<lparr>mode = mode_named a, config_file = Some (the_config ?c)\<rparr>"]
      assms(3)
    by (simp add: 1 2 prng_of_append parse_opt_End)
qed

lemma parse_second_arg:
  "mode args \<noteq> NONE \<Longrightarrow> parse_opt (Key_Arg d) w args = Inl (''Unexpected option: '' @ d)"
  by (simp add: parse_opt_def)

section \<open>Generating a pair\<close>

lemma privkey_to_pubkey_cases:
  obtains ok pub where "privkey_to_pubkey lib w k p = (w, ok, pub)"
    and "ok \<longrightarrow> ec_seckey_verify lib k \<and> ec_pubkey_create lib k = (True, pub)"
proof -
  obtain ok pub where 1: "privkey_to_pubkey lib w k p = (w, ok, pub)"
    by (metis privkey_to_pubkey_world prod.collapse)
  then show thesis using that by (auto simp: privkey_to_pubkey_eq split: if_splits)
qed

lemma keygen_pair_result:
  assumes vr: "valid_range (mem w) kp 32"
  obtains w' ok pub where "keygen_pair lib kp junk w = Some (w', ok, pub)"
    and "same_output w w'" and "valid_range (mem w') = valid_range (mem w)"
    and "ok \<longrightarrow> ec_seckey_verify lib (read_bytes (mem w') kp 32) \<and>
      ec_pubkey_create lib (read_bytes (mem w') kp 32) = (True, pub)"
proof -
  let ?k = "read_bytes (mem w) kp 32"
  obtain ok pub where 1: "privkey_to_pubkey lib w ?k junk = (w, ok, pub)"
    "ok \<longrightarrow> ec_seckey_verify lib ?k \<and> ec_pubkey_create lib ?k = (True, pub)"
    by (rule privkey_to_pubkey_cases)
  show thesis
  proof (cases ok)
    case True
    then have "keygen_pair lib kp junk w = Some (w, True, pub)"
      using vr 1(1) by (simp add: keygen_pair_def mem_simps)
    from that [OF this] 1(2) True show thesis by simp
  next
    case False
    let ?m = "write_bytes (mem w) kp [drop_bit 1 (?k ! 0)]"
    let ?w = "w\<lparr>mem := ?m\<rparr>" and ?k2 = "read_bytes ?m kp 32"
    have st: "store_bytes (mem w) kp [drop_bit 1 (?k ! 0)] = Some ?m"
      using valid_range_prefix [OF vr, of 1] by (simp add: mem_simps)
    obtain ok2 pub2 where 2: "privkey_to_pubkey lib ?w ?k2 pub = (?w, ok2, pub2)"
      "ok2 \<longrightarrow> ec_seckey_verify lib ?k2 \<and> ec_pubkey_create lib ?k2 = (True, pub2)"
      by (rule privkey_to_pubkey_cases)
    have "keygen_pair lib kp junk w = Some (?w, ok2, pub2)"
      using vr 1(1) 2(1) False st by (simp add: keygen_pair_def load_bytes_def)
    from that [OF this] 2(2) show thesis by (simp add: same_output_def)
  qed
qed

lemma keygen_print_ok:
  assumes lib: "ec_lib_ok lib" and key: "length key = 32" "ec_seckey_verify lib key" "ec_pubkey_create lib key = (True, pub)"
    and al: "\<forall>n. alloc_ok sys n"
  obtains tk tp where "out_lines (keygen_print sys lib key pub w) =
      out_lines w @ [key_line ''private-key'' tk, key_line ''public-key'' tp]"
    and "quiet w (keygen_print sys lib key pub w)"
    and "\<And>v key0 pub0. decode_b58_privkey lib v tk key0 (Some pub0) None = Some (v, True, key, Some pub, None)"
    and "\<And>v pub0. decode_b58_pubkey lib v tp pub0 None = Some (v, True, pub, None)"
proof -
  obtain tk w1 pub' where 1: "privkey_to_b58enc_form sys lib w key = (Some tk, w1)" "quiet w w1" "out_lines w1 = out_lines w"
    "ec_pubkey_create lib key = (True, pub')"
    "\<forall>v key0 pub0. decode_b58_privkey lib v tk key0 (Some pub0) None = Some (v, True, key, Some pub', None)"
    by (rule privkey_text [OF lib key(1,2) al [rule_format], of w]) blast
  let ?w = "print_out (key_line ''private-key'' tk) w1"
  obtain tp w2 where 2: "pubkey_to_b58enc_form sys lib ?w pub = (Some tp, w2)" "quiet ?w w2" "out_lines w2 = out_lines ?w"
    "\<forall>v pub0. decode_b58_pubkey lib v tp pub0 None = Some (v, True, pub, None)"
    by (rule pubkey_text [OF lib key(3) al [rule_format], of ?w]) blast
  have "keygen_print sys lib key pub w = print_out (key_line ''public-key'' tp) w2"
    using 1(1) 2(1) by (simp add: keygen_print_def)
  moreover have "quiet w w2" using 1(2) 2(2) by (simp add: quiet_def print_out_def)
  ultimately show thesis using that [of tk tp] 1 2 key(3) by simp
qed

lemma keygen_display_cases:
  assumes ready: "random_ready sys w" and vr: "valid_range (mem w) kp 32"
  obtains (failed) w' where "keygen_display sys lib kp junk w = Some (w', EXIT_FAILURE)" and "same_output w w'"
  | (printed) w1 pub where "keygen_display sys lib kp junk w =
        Some (keygen_print sys lib (read_bytes (mem w1) kp 32) pub w1, EXIT_SUCCESS)"
      and "same_output w w1" and "ec_seckey_verify lib (read_bytes (mem w1) kp 32)"
      and "ec_pubkey_create lib (read_bytes (mem w1) kp 32) = (True, pub)"
proof -
  have vr': "valid_range (mem w) kp (unat (32 :: u64))" using vr by simp
  obtain w1 r bs where f: "fill_random sys w kp 32 = Some (w1, r)" "mem w1 = write_bytes (mem w) kp bs"
    "same_output w w1"
    using rnd.loop_result [OF ready vr', of 32 0] by (auto simp: fill_random_def)
  show thesis
  proof (cases "r = 32")
    case True
    have vr1: "valid_range (mem w1) kp 32" using vr f(2) by simp
    obtain w2 ok pub where k: "keygen_pair lib kp junk w1 = Some (w2, ok, pub)"
      "same_output w1 w2" "valid_range (mem w2) = valid_range (mem w1)"
      "ok \<longrightarrow> ec_seckey_verify lib (read_bytes (mem w2) kp 32) \<and> ec_pubkey_create lib (read_bytes (mem w2) kp 32) = (True, pub)"
      by (rule keygen_pair_result [OF vr1, of lib junk])
    show thesis
    proof (cases ok)
      case True
      then have "keygen_display sys lib kp junk w =
          Some (keygen_print sys lib (read_bytes (mem w2) kp 32) pub w2, EXIT_SUCCESS)"
        using f(1) \<open>r = 32\<close> k(1,3) vr1 by (simp add: keygen_display_def load_bytes_def)
      moreover have "same_output w w2" using f(3) k(2) by (rule same_output_trans)
      ultimately show thesis using printed k(4) True by blast
    next
      case False
      moreover have "same_output w w2" using f(3) k(2) by (rule same_output_trans)
      ultimately show thesis using failed f(1) \<open>r = 32\<close> k(1) by (simp add: keygen_display_def)
    qed
  next
    case False
    then show thesis using failed f(1,3) by (simp add: keygen_display_def)
  qed
qed

lemma keygen_display_code:
  "keygen_display sys lib kp junk w = Some (w', code) \<Longrightarrow> code = EXIT_SUCCESS \<or> code = EXIT_FAILURE"
  by (auto simp: keygen_display_def bind_eq_Some_conv split: if_splits)

lemma load_printed_pair:
  assumes al: "\<forall>n. alloc_ok sys n" and f: "config_read_file cl path = Inl c"
    and k: "config_lookup_string cl c ''private-key'' = Some tk" "config_lookup_string cl c ''public-key'' = Some tp"
    and no: "config_lookup cl c ''client'' = None" "config_lookup cl c ''server'' = None"
    and dk: "\<And>v key0 pub0. decode_b58_privkey lib v tk key0 (Some pub0) None = Some (v, True, key, Some pub, None)"
    and dp: "\<And>v pub0. decode_b58_pubkey lib v tp pub0 None = Some (v, True, pub, None)"
    and ok: "ec_seckey_verify lib key" "ec_pubkey_create lib key = (True, pub)"
  shows "\<exists>w'. cryptochan_config_load sys lib cl junk w cc path = Some (w', True,
    cc\<lparr>private_key := Some tk, private_key_data := key, public_key := Some tp, public_key_data := pub\<rparr>)"
proof -
  have "load_private_key sys lib cl path c junk w cc =
      Some ((w\<lparr>allocs := Suc (allocs w)\<rparr>, True, cc\<lparr>private_key := Some tk, private_key_data := key\<rparr>, None), pub)"
    using al by (simp add: load_private_key_def k alloc_string_def dk)
  moreover have "load_public_key sys lib cl path c orig junk v cc' None =
      Some (v\<lparr>allocs := Suc (allocs v)\<rparr>, True, cc'\<lparr>public_key := Some tp, public_key_data := pub\<rparr>, None)"
    if "private_key_data cc' = key" for orig v cc'
    using al that ok by (simp add: load_public_key_def k alloc_string_def dp check_pubkey_eq)
  ultimately show ?thesis
    by (simp add: cryptochan_config_load_def f load_client_def load_server_def no)
qed

section \<open>Properties\<close>

text \<open>C28: With exactly one mode among the arguments, recognised in any case of its letters, and any
  options before and after it, the parser ends with that mode, the last configuration file
  given or else the default one, and the generator switched on exactly if it was asked for.
  No mode, an unknown one, and a second argument each end the program.\<close>

theorem parse_keys_correct:
  assumes "list_all is_option ks" and "list_all is_option ls" and "mode_named a \<noteq> NONE" and "mode_named b = NONE"
  shows "parse_keys (ks @ Key_Arg a # ls @ [Key_End]) w \<lparr>mode = NONE, config_file = None\<rparr> =
      Inr (prng_of (ks @ ls) w, \<lparr>mode = mode_named a, config_file = Some (the_config (config_of (ks @ ls) None))\<rparr>) \<and>
    parse_keys (ks @ [Key_End]) w \<lparr>mode = NONE, config_file = None\<rparr> = Inl ''MODE is not specified.'' \<and>
    parse_keys (ks @ Key_Arg b # rest) w \<lparr>mode = NONE, config_file = None\<rparr> = Inl (''Unrecognized mode: '' @ b) \<and>
    parse_keys (ks @ Key_Arg a # ls @ Key_Arg d # rest) w \<lparr>mode = NONE, config_file = None\<rparr> =
      Inl (''Unexpected option: '' @ d)"
proof (intro conjI)
  let ?init = "\<lparr>mode = NONE, config_file = None\<rparr>"
  show "parse_keys (ks @ Key_Arg a # ls @ [Key_End]) w ?init =
      Inr (prng_of (ks @ ls) w, \<lparr>mode = mode_named a, config_file = Some (the_config (config_of (ks @ ls) None))\<rparr>)"
    by (rule parse_one_mode [OF assms(1-3)])
  show "parse_keys (ks @ [Key_End]) w ?init = Inl ''MODE is not specified.''"
    using parse_options [OF assms(1), of "[Key_End]"] by (simp add: parse_opt_def parse_end_def)
  show "parse_keys (ks @ Key_Arg b # rest) w ?init = Inl (''Unrecognized mode: '' @ b)"
    using parse_options [OF assms(1), of "Key_Arg b # rest"] assms(4)
    by (simp add: parse_opt_def mode_named_def split: if_splits)
  show "parse_keys (ks @ Key_Arg a # ls @ Key_Arg d # rest) w ?init = Inl (''Unexpected option: '' @ d)"
    using parse_options [OF assms(1), of "Key_Arg a # ls @ Key_Arg d # rest"]
      parse_options [OF assms(2), of "Key_Arg d # rest"] assms(3)
    by (simp add: parse_second_arg parse_mode_arg)
qed

theorem parse_keys_correct_witness:
  "parse_keys [Key_P, Key_Arg ''KeyGen'', Key_C ''my.conf'', Key_End] sample_world \<lparr>mode = NONE, config_file = None\<rparr> =
     Inr (set_use_prng True sample_world, \<lparr>mode = KEYGEN, config_file = Some ''my.conf''\<rparr>)"
proof -
  have "list_all is_option [Key_P]" "list_all is_option [Key_C ''my.conf'']" by (simp_all add: is_option_def)
  moreover have m: "mode_named ''KeyGen'' = KEYGEN" "mode_named ''proxy'' = NONE" by code_simp+
  ultimately show ?thesis
    using parse_keys_correct [of "[Key_P]" "[Key_C ''my.conf'']" "''KeyGen''" "''proxy''" sample_world "[]" "[]"]
    by (simp add: prng_of_def config_of_def the_config_def)
qed


text \<open>A machine on which everything works, with the sample configuration files.\<close>

definition sample_env :: "(setting, setting) environment" where
  "sample_env = \<lparr>env_system = sample_system, env_lib = sample_lib, env_config = sample_libconfig sample_files,
     env_net = sample_calls, key_array = 1000, junk_bytes = [], junk_context = zero_context\<rparr>"

lemma sample_random_ready: "random_ready sample_system sample_world"
  by (auto simp: random_ready_def os_random_ok_def sample_system_def)

lemma sample_key_array: "valid_range (mem sample_world) 1000 32"
  by (simp add: sample_world_def)


lemma sample_fill:
  assumes sys: "os_random sys = os_random sample_system"
  shows "fill_random sys sample_world 1000 32 =
     Some (sample_world\<lparr>rnd_calls := 1, mem := write_bytes sample_memory 1000 (replicate 32 7)\<rparr>, 32)"
proof -
  have "fill_random_next sys sample_world 1000 32 =
      Some (sample_world\<lparr>rnd_calls := 1, mem := write_bytes sample_memory 1000 (replicate 32 7)\<rparr>, 32)"
    by (simp add: fill_random_next_def getrandom_def sys sample_world_def store_bytes_def)
      (simp add: sample_system_def store_bytes_def)
  then show ?thesis
    by (subst fill_random_def, subst fill_random_loop.simps, subst fill_random_loop.simps) simp
qed

lemma sample_sevens:
  "ec_seckey_verify sample_lib (replicate 32 7)"
  "ec_pubkey_create sample_lib (replicate 32 7) = (True, 2 # replicate 32 7 @ replicate 31 0)"
proof -
  have sum: "255 * from_digits 256 (replicate n 7) + 7 = 7 * 256 ^ n" for n
  proof (induction n)
    case (Suc n)
    have "replicate (Suc n) (7::nat) = replicate n 7 @ [7]" by (simp add: replicate_append_same)
    then show ?case using Suc by simp
  qed simp
  have "0 < from_digits 256 (replicate 32 7)" "from_digits 256 (replicate 32 7) < curve_order"
    using sum [of 32] by (simp_all add: curve_order_def)
  then have "sample_seckey_verify (replicate 32 7)" by (simp add: sample_seckey_verify_def)
  then show "ec_seckey_verify sample_lib (replicate 32 7)"
    "ec_pubkey_create sample_lib (replicate 32 7) = (True, 2 # replicate 32 7 @ replicate 31 0)"
    by (simp_all add: sample_lib_def)
qed

lemma sample_pair:
  "read_bytes (mem w) 1000 32 = replicate 32 7 \<Longrightarrow> valid_range (mem w) 1000 32 \<Longrightarrow>
   keygen_pair sample_lib 1000 junk w = Some (w, True, 2 # replicate 32 7 @ replicate 31 0)"
  using sample_sevens by (simp add: keygen_pair_def mem_simps privkey_to_pubkey_eq)



text \<open>A key that cannot be encoded, because the memory for its text is not to be had, does not
  make the key generation fail: it prints no key at all and still reports success.\<close>

theorem keygen_success_without_keys:
  "\<exists>w'. keygen_display (sample_system\<lparr>alloc_ok := (\<lambda>n. False)\<rparr>) sample_lib 1000 [] sample_world =
     Some (w', EXIT_SUCCESS) \<and> out_lines w' = []"
proof -
  let ?sys = "sample_system\<lparr>alloc_ok := (\<lambda>n. False)\<rparr>"
  define w1 where "w1 = sample_world\<lparr>rnd_calls := 1, mem := write_bytes sample_memory 1000 (replicate 32 7)\<rparr>"
  have f: "fill_random ?sys sample_world 1000 32 = Some (w1, 32)"
    "mem w1 = write_bytes sample_memory 1000 (replicate 32 7)" "out_lines w1 = []"
    using sample_fill [of ?sys] by (simp_all add: w1_def sample_world_def)
  have key: "read_bytes (mem w1) 1000 32 = replicate 32 7" "valid_range (mem w1) 1000 32" by (simp_all add: f(2))
  let ?p = "2 # replicate 32 7 @ replicate 31 0"
  have "out_lines (keygen_print ?sys sample_lib (replicate 32 7) ?p w1) = []"
    using f(3) by (simp add: keygen_print_def privkey_to_b58enc_form_def pubkey_to_b58enc_form_def b58enc_data_def
        alloc_string_def context_create_def context_destroy_def Let_def split: option.splits prod.splits)
  then show ?thesis
    using f(1) key sample_pair [OF key] by (simp add: keygen_display_def mem_simps)
qed




end
